theory Spec2Isabelle
  imports Main "HOL-Library.Sublist"
begin

section \<open>The Cloud Run entrypoint: remote configuration bootstrap\<close>

text \<open>
  This theory embeds \<^verbatim>\<open>docker/cloud_run_entrypoint.sh\<close>. The script is a POSIX shell
  program run under \<^verbatim>\<open>set -e\<close>; it calls the utilities \<^verbatim>\<open>env\<close>, \<^verbatim>\<open>grep\<close>,
  \<^verbatim>\<open>sed\<close>, \<^verbatim>\<open>tr\<close>, \<^verbatim>\<open>echo\<close>, \<^verbatim>\<open>ls\<close> and \<^verbatim>\<open>curl\<close>.

  Strings are byte strings. The shell, \<^verbatim>\<open>tr\<close> and \<^verbatim>\<open>sed\<close> are modelled by what POSIX
  says they do, in the \<^verbatim>\<open>C\<close> locale, on the arguments the script gives them. Which lines
  \<^verbatim>\<open>grep\<close> takes for text depends on its implementation and on the locale, and is a
  parameter of the model. Everything outside the script (the servers that \<^verbatim>\<open>curl\<close>
  talks to, the file system that \<^verbatim>\<open>curl\<close> writes and \<^verbatim>\<open>ls\<close> reads) is a parameter too:
  the record \<open>world\<close> below. The messages that the script writes to standard output are
  not modelled; those written to standard error are.
\<close>

subsection \<open>Text utilities\<close>

abbreviation NL :: char where "NL \<equiv> CHR 0x0A"

abbreviation DQUOTE :: char where "DQUOTE \<equiv> CHR 0x22"

abbreviation BACKSLASH :: char where "BACKSLASH \<equiv> CHR 0x5C"

text \<open>
  The lines of a text. Every line ends at a newline; a last line without one still
  counts (this is how \<^verbatim>\<open>grep\<close> and \<^verbatim>\<open>sed\<close> read their input).
\<close>

fun lines :: "string \<Rightarrow> string list" where
  "lines [] = []"
| "lines (c # cs) =
     (if c = NL then [] # lines cs
      else (case lines cs of [] \<Rightarrow> [[c]] | l # ls \<Rightarrow> (c # l) # ls))"

definition unlines :: "string list \<Rightarrow> string" where
  "unlines ls = concat (map (\<lambda>l. l @ [NL]) ls)"

text \<open>Command substitution \<^verbatim>\<open>$(...)\<close> removes all trailing newlines of the output.\<close>

definition cmd_subst :: "string \<Rightarrow> string" where
  "cmd_subst out = rev (dropWhile (\<lambda>c. c = NL) (rev out))"

text \<open>\<^verbatim>\<open>tr '[:upper:]' '[:lower:]'\<close>: the letters A to Z become a to z.\<close>

definition to_lower :: "char \<Rightarrow> char" where
  "to_lower c =
     (let n = (of_char c :: nat) in if 65 \<le> n \<and> n \<le> 90 then char_of (n + 32) else c)"

definition tr_upper_lower :: "string \<Rightarrow> string" where
  "tr_upper_lower text = map to_lower text"

text \<open>\<^verbatim>\<open>tr -d '\n'\<close>.\<close>

definition tr_delete_newline :: "string \<Rightarrow> string" where
  "tr_delete_newline text = filter (\<lambda>c. c \<noteq> NL) text"

text \<open>
  \<^verbatim>\<open>sed 's/^PREFIX//'\<close> for a literal prefix: on every line that starts with the prefix,
  the prefix is removed.
\<close>

definition sed_strip_prefix :: "string \<Rightarrow> string \<Rightarrow> string" where
  "sed_strip_prefix p text =
     unlines (map (\<lambda>l. if prefix p l then drop (length p) l else l) (lines text))"

text \<open>
  \<^verbatim>\<open>IFS='=' read -r name url\<close> on one line. The name is the text before the first
  \<^verbatim>\<open>=\<close>. The last variable takes the rest of the line; by the field splitting rules a
  single \<^verbatim>\<open>=\<close> that ends the rest only terminates its one field and is dropped, while a
  rest with more than one \<^verbatim>\<open>=\<close> is kept as it is.
\<close>

definition read_rest :: "string \<Rightarrow> string" where
  "read_rest r =
     (if r \<noteq> [] \<and> last r = CHR ''='' \<and> CHR ''='' \<notin> set (butlast r) then butlast r else r)"

definition read_name_url :: "string \<Rightarrow> string \<times> string" where
  "read_name_url line =
     (takeWhile (\<lambda>c. c \<noteq> CHR ''='') line,
      read_rest (drop 1 (dropWhile (\<lambda>c. c \<noteq> CHR ''='') line)))"

text \<open>
  \<^verbatim>\<open>${s#"$p"}\<close> with a quoted, hence literal, pattern: \<open>s\<close> without the prefix \<open>p\<close> when
  it has that prefix, and \<open>s\<close> itself otherwise.
\<close>

definition remove_prefix :: "string \<Rightarrow> string \<Rightarrow> string" where
  "remove_prefix p s = (if take (length p) s = p then drop (length p) s else s)"

text \<open>The \<^verbatim>\<open>case\<close> pattern \<^verbatim>\<open>*lit*\<close>: the literal occurs somewhere in the string.\<close>

fun glob_contains :: "string \<Rightarrow> string \<Rightarrow> bool" where
  "glob_contains lit [] = (lit = [])"
| "glob_contains lit (c # cs) = (take (length lit) (c # cs) = lit \<or> glob_contains lit cs)"

subsection \<open>The outside world\<close>

text \<open>
  The two shapes of \<^verbatim>\<open>curl\<close> invocation in the script:
  \<^verbatim>\<open>curl -fsSL -u USER URL\<close> (the authorization call) and
  \<^verbatim>\<open>curl -fsSL [-H HEADER] URL -o DEST\<close> (a download).
\<close>

datatype curl_call =
    CurlAuth string string
  | CurlGet "string option" string string

text \<open>
  What happens to a download. Either the transfer breaks down before the server has given
  its final answer (the host is not resolved, the connection is refused or lost, there are
  too many redirections, ...), and \<^verbatim>\<open>curl\<close> ends with a status that is not 0: the status
  is \<open>n + 1\<close> for \<open>Transport_Error n\<close>. Or the server gives a final answer, after the
  redirections that \<^verbatim>\<open>-L\<close> follows: \<open>Http_Answer status write_failed\<close> holds the HTTP
  status of that answer, and whether writing the body to the destination fails. The status
  of a final answer is 200 or above: an answer with a status below 200 is an interim one,
  after which \<^verbatim>\<open>curl\<close> waits for the final answer.
\<close>

datatype transfer =
    Transport_Error nat
  | Http_Answer nat bool

text \<open>
  The exit status of \<^verbatim>\<open>curl -fsSL ... -o DEST\<close>. With \<^verbatim>\<open>-f\<close> a final answer whose status is
  400 or above makes \<^verbatim>\<open>curl\<close> end with status 22, and nothing is written. Any other final
  answer is written to the destination, whatever its status, 2xx or not; \<^verbatim>\<open>curl\<close> ends with
  status 23 when that fails and with status 0 otherwise.
\<close>

fun curl_exit :: "transfer \<Rightarrow> nat" where
  "curl_exit (Transport_Error n) = Suc n"
| "curl_exit (Http_Answer status write_failed) =
     (if 400 \<le> status then 22 else if write_failed then 23 else 0)"

text \<open>
  What the script cannot decide. \<open>auth_curl\<close> gives the exit status and the standard
  output of the authorization call. \<open>fetch_answer\<close> gives what happens to a download,
  given all calls made before it. \<open>list_dir\<close> is the final directory listing: \<open>None\<close>
  when the directory is missing or empty (nothing is listed), and otherwise the exit
  status of \<^verbatim>\<open>ls -la\<close>. \<open>echo_backslash\<close> is what the \<^verbatim>\<open>echo\<close> of the shell prints for an
  operand with a backslash in it, which POSIX leaves to the implementation. \<open>grep_text\<close>
  says of a line whether \<^verbatim>\<open>grep\<close> takes it for text.
\<close>

record world =
  auth_curl :: "string \<Rightarrow> string \<Rightarrow> nat \<times> string"
  fetch_answer :: "curl_call list \<Rightarrow> curl_call \<Rightarrow> transfer"
  list_dir :: "string \<Rightarrow> curl_call list \<Rightarrow> nat option"
  echo_backslash :: "string \<Rightarrow> string"
  grep_text :: "string \<Rightarrow> bool"

text \<open>The exit status of a download, given all calls made before it.\<close>

definition fetch_curl :: "world \<Rightarrow> curl_call list \<Rightarrow> curl_call \<Rightarrow> nat" where
  "fetch_curl w log call = curl_exit (fetch_answer w log call)"

text \<open>
  \<^verbatim>\<open>echo "$s"\<close>: the string and a newline, unless the string contains a backslash. (The
  script only echoes names that begin with \<^verbatim>\<open>CONFIG_URL_\<close> or \<^verbatim>\<open>HANDLER_URL_\<close>, so the
  operand is never taken for an option.)
\<close>

definition echo :: "world \<Rightarrow> string \<Rightarrow> string" where
  "echo w s = (if BACKSLASH \<in> set s then echo_backslash w s else s @ [NL])"

text \<open>
  \<^verbatim>\<open>grep '^PREFIX'\<close> for a literal prefix: the lines of the input that start with it and
  that \<^verbatim>\<open>grep\<close> takes for text, in order. GNU grep, as of version 3.11, does not print
  a selected line that holds a byte sequence which is invalid in its locale; it reports
  \<^verbatim>\<open>binary file matches\<close> on standard error, which the pipeline does not read, and goes
  on to print the selected lines after it. In the \<^verbatim>\<open>C\<close> locale, and for a \<^verbatim>\<open>grep\<close> that
  does not look at the encoding, every line is text. The exit status of \<^verbatim>\<open>grep\<close> plays no
  part: the status of a pipeline is that of its last command. The result is the list of
  lines that the \<^verbatim>\<open>while read\<close> loop then consumes.
\<close>

definition grep_prefix :: "world \<Rightarrow> string \<Rightarrow> string \<Rightarrow> string list" where
  "grep_prefix w p text = filter (\<lambda>l. prefix p l \<and> grep_text w l) (lines text)"

subsection \<open>Choosing the header and fetching one file\<close>

text \<open>The shell variables that \<^verbatim>\<open>fetch_file\<close> and the loops read.\<close>

record shell_vars =
  CONFIG_DIR :: string
  AUTH_HEADER :: string
  BACKBLAZE_AUTH_HEADER :: string
  BACKBLAZE_DOWNLOAD_URL :: string

definition is_backblaze_url :: "shell_vars \<Rightarrow> string \<Rightarrow> bool" where
  "is_backblaze_url sv url =
     (if BACKBLAZE_DOWNLOAD_URL sv \<noteq> [] \<and>
         remove_prefix (BACKBLAZE_DOWNLOAD_URL sv @ ''/'') url \<noteq> url
      then True
      else glob_contains ''backblazeb2.com/'' url)"

text \<open>
  \<^verbatim>\<open>fetch_file url dest\<close> runs one of three \<^verbatim>\<open>curl\<close> commands, chosen by its
  \<^verbatim>\<open>if/elif/else\<close>. \<open>fetch_command\<close> is the command chosen.
\<close>

definition fetch_command :: "shell_vars \<Rightarrow> string \<Rightarrow> string \<Rightarrow> curl_call" where
  "fetch_command sv url dest =
     (if AUTH_HEADER sv \<noteq> [] then CurlGet (Some (AUTH_HEADER sv)) url dest
      else if BACKBLAZE_AUTH_HEADER sv \<noteq> [] \<and> is_backblaze_url sv url
           then CurlGet (Some (BACKBLAZE_AUTH_HEADER sv)) url dest
      else CurlGet None url dest)"

text \<open>
  The result of \<^verbatim>\<open>fetch_file\<close>: the exit status of the command, and the log of calls
  extended by it.
\<close>

definition fetch_file ::
  "world \<Rightarrow> shell_vars \<Rightarrow> curl_call list \<Rightarrow> string \<Rightarrow> string \<Rightarrow> nat \<times> curl_call list" where
  "fetch_file w sv log url dest =
     (let call = fetch_command sv url dest in (fetch_curl w log call, log @ [call]))"

subsection \<open>Reading a field of the authorization response\<close>

text \<open>The class \<^verbatim>\<open>[[:space:]]\<close>: space, tab, newline, vertical tab, form feed, return.\<close>

definition is_space :: "char \<Rightarrow> bool" where
  "is_space c \<longleftrightarrow> c \<in> set [CHR '' '', CHR 0x09, NL, CHR 0x0B, CHR 0x0C, CHR 0x0D]"

text \<open>
  Whether \<^verbatim>\<open>"FIELD"[[:space:]]*:[[:space:]]*"\([^"]*\)"\<close> matches at the very start of
  the string, and the text of the group when it does. The field name is taken literally
  (the two names that the script asks for contain no special character).
\<close>

definition match_field_here :: "string \<Rightarrow> string \<Rightarrow> string option" where
  "match_field_here field s =
     (let key = DQUOTE # field @ [DQUOTE] in
      if prefix key s then
        (case dropWhile is_space (drop (length key) s) of
           [] \<Rightarrow> None
         | c # r1 \<Rightarrow>
             if c = CHR '':'' then
               (case dropWhile is_space r1 of
                  [] \<Rightarrow> None
                | d # r2 \<Rightarrow>
                    if d = DQUOTE \<and> DQUOTE \<in> set r2
                    then Some (takeWhile (\<lambda>x. x \<noteq> DQUOTE) r2)
                    else None)
             else None)
      else None)"

text \<open>
  \<^verbatim>\<open>sed -n 's/.*"FIELD"[[:space:]]*:[[:space:]]*"\([^"]*\)".*/\1/p'\<close> on one line. The
  leading \<^verbatim>\<open>.*\<close> is as long as it can be, so the group is taken at the last position of
  the line where the rest of the pattern matches. \<open>None\<close>: no match, nothing is printed.
\<close>

fun sed_last_field :: "string \<Rightarrow> string \<Rightarrow> string option" where
  "sed_last_field field [] = None"
| "sed_last_field field (c # cs) =
     (case sed_last_field field cs of
        Some v \<Rightarrow> Some v
      | None \<Rightarrow> match_field_here field (c # cs))"

text \<open>
  \<^verbatim>\<open>extract_json_field json_payload field_name\<close>, as its caller sees it through
  \<^verbatim>\<open>$(...)\<close>: the printed group has no newline in it, so the caller gets the group, or
  the empty string when nothing was printed.
\<close>

definition extract_json_field :: "string \<Rightarrow> string \<Rightarrow> string" where
  "extract_json_field json_payload field_name =
     (case sed_last_field field_name (tr_delete_newline json_payload) of
        None \<Rightarrow> []
      | Some v \<Rightarrow> v)"

subsection \<open>File names from variable names, and the two loops\<close>

text \<open>
  \<^verbatim>\<open>suffix=$(echo "$name" | sed 's/^PREFIX//' | tr '[:upper:]' '[:lower:]')\<close> followed by
  \<^verbatim>\<open>filename="${suffix}SUFFIX"\<close>.
\<close>

definition derived_filename :: "world \<Rightarrow> string \<Rightarrow> string \<Rightarrow> string \<Rightarrow> string" where
  "derived_filename w pfx sfx name =
     (let suffix = cmd_subst (tr_upper_lower (sed_strip_prefix pfx (echo w name)))
      in suffix @ sfx)"

text \<open>
  The body of \<^verbatim>\<open>while IFS='=' read -r name url; do ... done\<close>, over the lines that
  \<^verbatim>\<open>grep\<close> selected. The loop runs in a subshell under \<^verbatim>\<open>set -e\<close>: the first failing
  \<^verbatim>\<open>fetch_file\<close> ends it with that exit status. Otherwise its status is 0.
\<close>

fun fetch_lines ::
  "world \<Rightarrow> shell_vars \<Rightarrow> string \<Rightarrow> string \<Rightarrow> curl_call list \<Rightarrow> string list
     \<Rightarrow> nat \<times> curl_call list" where
  "fetch_lines w sv pfx sfx log [] = (0, log)"
| "fetch_lines w sv pfx sfx log (line # rest) =
     (case read_name_url line of (name, url) \<Rightarrow>
        if url \<noteq> [] then
          (case fetch_file w sv log url (CONFIG_DIR sv @ ''/'' @ derived_filename w pfx sfx name) of
             (status, log') \<Rightarrow>
               if status \<noteq> 0 then (status, log') else fetch_lines w sv pfx sfx log' rest)
        else fetch_lines w sv pfx sfx log rest)"

subsection \<open>The environment\<close>

text \<open>
  The exported variables of the shell with their values, in the order in which \<^verbatim>\<open>env\<close>
  prints them. At the start they are the variables that the shell has taken from the
  environment of the process. A name has no \<^verbatim>\<open>=\<close> in it; a value is any string, and
  may contain newlines.
\<close>

type_synonym environ = "(string \<times> string) list"

text \<open>\<^verbatim>\<open>$NAME\<close>: the value, or the empty string when the variable is unset.\<close>

definition getenv :: "environ \<Rightarrow> string \<Rightarrow> string" where
  "getenv env name = (case map_of env name of None \<Rightarrow> [] | Some v \<Rightarrow> v)"

text \<open>\<^verbatim>\<open>${NAME:-word}\<close>: the word replaces a value that is unset or empty.\<close>

definition or_default :: "string \<Rightarrow> string \<Rightarrow> string" where
  "or_default v word = (if v = [] then word else v)"

text \<open>
  The effect of an assignment \<^verbatim>\<open>NAME=value\<close> on what \<^verbatim>\<open>env\<close> prints: a variable that came
  from the environment stays exported and shows its new value; any other variable is
  private to the shell and does not appear.
\<close>

definition assign :: "string \<Rightarrow> string \<Rightarrow> environ \<Rightarrow> environ" where
  "assign name v env = map (\<lambda>(k, x). if k = name then (k, v) else (k, x)) env"

text \<open>The output of \<^verbatim>\<open>env\<close>: \<^verbatim>\<open>NAME=value\<close> and a newline for every exported variable.\<close>

definition env_output :: "environ \<Rightarrow> string" where
  "env_output env = concat (map (\<lambda>(k, x). k @ ''='' @ x @ [NL]) env)"

text \<open>\<^verbatim>\<open>env | grep '^PREFIX' | while IFS='=' read -r name url; do ... done\<close>.\<close>

definition fetch_env_files ::
  "world \<Rightarrow> shell_vars \<Rightarrow> string \<Rightarrow> string \<Rightarrow> environ \<Rightarrow> curl_call list
     \<Rightarrow> nat \<times> curl_call list" where
  "fetch_env_files w sv pfx sfx exported log =
     fetch_lines w sv pfx sfx log (grep_prefix w pfx (env_output exported))"

subsection \<open>The script\<close>

text \<open>
  How a run ends: the shell exits with a status, or it replaces itself by
  \<^verbatim>\<open>/app/docker/prod_entrypoint.sh "$@"\<close>, with \<^verbatim>\<open>PYTHONPATH\<close> exported at the given
  value and with the given arguments.
\<close>

datatype outcome =
    Exit nat
  | Exec string "string list"

record run =
  outcome :: outcome
  calls :: "curl_call list"
  stderr :: "string list"

definition keys_message :: string where
  "keys_message =
     ''Both BACKBLAZE_KEY_ID (or B2_KEY_ID) and BACKBLAZE_APPLICATION_KEY (or B2_APPLICATION_KEY) must be set''"

definition token_message :: string where
  "token_message = ''Failed to read Backblaze authorizationToken from auth response''"

text \<open>
  The first four assignments of the script:
  \<^verbatim>\<open>CONFIG_DIR="${CONFIG_DIR:-/app/config}"\<close>,
  \<^verbatim>\<open>BACKBLAZE_AUTH_URL="${BACKBLAZE_AUTH_URL:-https://...}"\<close>,
  \<^verbatim>\<open>BACKBLAZE_KEY_ID="${BACKBLAZE_KEY_ID:-${B2_KEY_ID:-}}"\<close> and
  \<^verbatim>\<open>BACKBLAZE_APPLICATION_KEY="${BACKBLAZE_APPLICATION_KEY:-${B2_APPLICATION_KEY:-}}"\<close>.
\<close>

definition config_dir :: "environ \<Rightarrow> string" where
  "config_dir env = or_default (getenv env ''CONFIG_DIR'') ''/app/config''"

definition backblaze_auth_url :: "environ \<Rightarrow> string" where
  "backblaze_auth_url env =
     or_default (getenv env ''BACKBLAZE_AUTH_URL'')
       ''https://api.backblazeb2.com/b2api/v2/b2_authorize_account''"

definition backblaze_key_id :: "environ \<Rightarrow> string" where
  "backblaze_key_id env =
     or_default (getenv env ''BACKBLAZE_KEY_ID'') (or_default (getenv env ''B2_KEY_ID'') [])"

definition backblaze_application_key :: "environ \<Rightarrow> string" where
  "backblaze_application_key env =
     or_default (getenv env ''BACKBLAZE_APPLICATION_KEY'')
       (or_default (getenv env ''B2_APPLICATION_KEY'') [])"

text \<open>
  The script from \<^verbatim>\<open># Fetch main config if URL is specified\<close> to the end. Under
  \<^verbatim>\<open>set -e\<close> a failing \<^verbatim>\<open>fetch_file\<close>, a pipeline whose loop failed and a failing
  \<^verbatim>\<open>ls -la\<close> each end the script with the status of the failed command. Both pipelines
  run \<^verbatim>\<open>env\<close> in the same shell state: what the loops assign is lost with their subshell.
  The fetch of the main config runs in the script's own shell, where \<^verbatim>\<open>fetch_file\<close>
  assigns \<^verbatim>\<open>url\<close> and \<^verbatim>\<open>dest\<close>.
\<close>

definition fetch_and_exec ::
  "world \<Rightarrow> environ \<Rightarrow> shell_vars \<Rightarrow> curl_call list \<Rightarrow> string list \<Rightarrow> run" where
  "fetch_and_exec w exported sv log args =
     (let config_url = getenv exported ''LITELLM_CONFIG_URL'';
          dest = CONFIG_DIR sv @ ''/config.yaml'';
          (st0, log0) =
            (if config_url \<noteq> [] then fetch_file w sv log config_url dest else (0, log));
          exported0 =
            (if config_url \<noteq> [] then assign ''dest'' dest (assign ''url'' config_url exported)
             else exported)
      in if st0 \<noteq> 0 then \<lparr>outcome = Exit st0, calls = log0, stderr = []\<rparr>
         else
           (case fetch_env_files w sv ''CONFIG_URL_'' ''.yaml'' exported0 log0 of
              (st1, log1) \<Rightarrow>
                if st1 \<noteq> 0 then \<lparr>outcome = Exit st1, calls = log1, stderr = []\<rparr>
                else
                  (case fetch_env_files w sv ''HANDLER_URL_'' ''_handler.py'' exported0 log1 of
                     (st2, log2) \<Rightarrow>
                       if st2 \<noteq> 0 then \<lparr>outcome = Exit st2, calls = log2, stderr = []\<rparr>
                       else
                         (let st3 = (case list_dir w (CONFIG_DIR sv) log2 of
                                       None \<Rightarrow> 0 | Some st \<Rightarrow> st)
                          in if st3 \<noteq> 0 then \<lparr>outcome = Exit st3, calls = log2, stderr = []\<rparr>
                             else
                               \<lparr>outcome =
                                  Exec (CONFIG_DIR sv @ '':'' @ getenv exported0 ''PYTHONPATH'') args,
                                calls = log2, stderr = []\<rparr>))))"

text \<open>
  The whole script. \<^verbatim>\<open>mkdir -p "$CONFIG_DIR" 2>/dev/null || true\<close> cannot fail and makes
  no network call, so it leaves no trace here. The two calls of \<^verbatim>\<open>extract_json_field\<close>
  run inside \<^verbatim>\<open>$(...)\<close>, so what they assign is lost. A failing authorization call
  ends the script under \<^verbatim>\<open>set -e\<close> with the status of \<^verbatim>\<open>curl\<close>.
\<close>

definition main :: "world \<Rightarrow> environ \<Rightarrow> string list \<Rightarrow> run" where
  "main w env args =
     (let key_id = backblaze_key_id env;
          app_key = backblaze_application_key env;
          exported =
            assign ''BACKBLAZE_DOWNLOAD_URL'' []
              (assign ''BACKBLAZE_AUTH_HEADER'' []
                 (assign ''BACKBLAZE_APPLICATION_KEY'' app_key
                    (assign ''BACKBLAZE_KEY_ID'' key_id
                       (assign ''BACKBLAZE_AUTH_URL'' (backblaze_auth_url env)
                          (assign ''CONFIG_DIR'' (config_dir env) env)))));
          sv = \<lparr>CONFIG_DIR = config_dir env, AUTH_HEADER = getenv env ''AUTH_HEADER'',
                BACKBLAZE_AUTH_HEADER = [], BACKBLAZE_DOWNLOAD_URL = []\<rparr>
      in if key_id \<noteq> [] \<or> app_key \<noteq> [] then
           if key_id = [] \<or> app_key = [] then
             \<lparr>outcome = Exit 1, calls = [], stderr = [keys_message]\<rparr>
           else
             (case auth_curl w (key_id @ '':'' @ app_key) (backblaze_auth_url env) of
                (st, out) \<Rightarrow>
                  (let log = [CurlAuth (key_id @ '':'' @ app_key) (backblaze_auth_url env)] in
                   if st \<noteq> 0 then \<lparr>outcome = Exit st, calls = log, stderr = []\<rparr>
                   else
                     (let backblaze_auth_response = cmd_subst out;
                          backblaze_auth_token =
                            extract_json_field backblaze_auth_response ''authorizationToken'';
                          download_url = extract_json_field backblaze_auth_response ''downloadUrl''
                      in if backblaze_auth_token = [] then
                           \<lparr>outcome = Exit 1, calls = log, stderr = [token_message]\<rparr>
                         else
                           fetch_and_exec w
                             (assign ''BACKBLAZE_AUTH_HEADER''
                                (''Authorization: '' @ backblaze_auth_token)
                                (assign ''BACKBLAZE_DOWNLOAD_URL'' download_url
                                   (assign ''backblaze_auth_token'' backblaze_auth_token
                                      (assign ''backblaze_auth_response'' backblaze_auth_response
                                         exported))))
                             (sv\<lparr>BACKBLAZE_AUTH_HEADER := ''Authorization: '' @ backblaze_auth_token,
                                 BACKBLAZE_DOWNLOAD_URL := download_url\<rparr>)
                             log args)))
         else fetch_and_exec w exported sv [] args)"

subsection \<open>Notions used to state the properties\<close>

text \<open>The names that the script treats as URLs to fetch.\<close>

definition is_fetch_variable :: "string \<Rightarrow> bool" where
  "is_fetch_variable k \<longleftrightarrow>
     k = ''LITELLM_CONFIG_URL'' \<or> prefix ''CONFIG_URL_'' k \<or> prefix ''HANDLER_URL_'' k"

text \<open>The characters \<^verbatim>\<open>[A-Za-z0-9_]\<close>.\<close>

definition is_name_char :: "char \<Rightarrow> bool" where
  "is_name_char c \<longleftrightarrow>
     (let n = (of_char c :: nat)
      in (65 \<le> n \<and> n \<le> 90) \<or> (97 \<le> n \<and> n \<le> 122) \<or> (48 \<le> n \<and> n \<le> 57) \<or> n = 95)"

text \<open>
  An environment from which the entries rejected by \<open>P\<close> may be removed: names are
  distinct and free of \<^verbatim>\<open>=\<close>, and every rejected entry has an empty value.
\<close>

definition removable :: "(string \<times> string \<Rightarrow> bool) \<Rightarrow> environ \<Rightarrow> bool" where
  "removable P e \<longleftrightarrow>
     distinct (map fst e) \<and> (\<forall>(k, x)\<in>set e. CHR ''='' \<notin> set k) \<and>
     (\<forall>(k, x)\<in>set e. \<not> P (k, x) \<longrightarrow> x = [])"

text \<open>
  The calls \<open>new\<close>, made one after the other after the calls \<open>log\<close>, all succeeded,
  except that the last one had exit status \<open>st\<close>; a non-zero \<open>st\<close> is the status of a
  call that was made.
\<close>

definition trace_ok :: "world \<Rightarrow> curl_call list \<Rightarrow> curl_call list \<Rightarrow> nat \<Rightarrow> bool" where
  "trace_ok w log new st \<longleftrightarrow>
     (st \<noteq> 0 \<longrightarrow> new \<noteq> []) \<and>
     (\<forall>pre c post. new = pre @ c # post \<longrightarrow>
        fetch_curl w (log @ pre) c = (if post = [] then st else 0))"

text \<open>
  A download fails, for \<^verbatim>\<open>curl -f\<close>, on a transport error, on a final HTTP status of 400
  or above, and when the destination cannot be written.
\<close>

fun curl_failed :: "transfer \<Rightarrow> bool" where
  "curl_failed (Transport_Error n) = True"
| "curl_failed (Http_Answer status write_failed) = (400 \<le> status \<or> write_failed)"

text \<open>
  The fetch attempts that a loop owes to the variables of an environment: one for every
  variable whose name begins with the prefix and whose value reads as non-empty, in the
  order of the environment.
\<close>

definition loop_fetches ::
  "world \<Rightarrow> shell_vars \<Rightarrow> string \<Rightarrow> string \<Rightarrow> environ \<Rightarrow> curl_call list" where
  "loop_fetches w sv pfx sfx env =
     map (\<lambda>(k, x). fetch_command sv (read_rest x)
                      (CONFIG_DIR sv @ ''/'' @ derived_filename w pfx sfx k))
       (filter (\<lambda>(k, x). prefix pfx k \<and> read_rest x \<noteq> []) env)"

text \<open>
  The fetch attempts that a run owes to an environment: the main config when
  \<^verbatim>\<open>LITELLM_CONFIG_URL\<close> is non-empty, then those of the loop over \<^verbatim>\<open>CONFIG_URL_\<close>, then
  those of the loop over \<^verbatim>\<open>HANDLER_URL_\<close>.
\<close>

definition expected_fetches :: "world \<Rightarrow> shell_vars \<Rightarrow> environ \<Rightarrow> curl_call list" where
  "expected_fetches w sv env =
     (if getenv env ''LITELLM_CONFIG_URL'' \<noteq> []
      then [fetch_command sv (getenv env ''LITELLM_CONFIG_URL'') (CONFIG_DIR sv @ ''/config.yaml'')]
      else []) @
     loop_fetches w sv ''CONFIG_URL_'' ''.yaml'' env @
     loop_fetches w sv ''HANDLER_URL_'' ''_handler.py'' env"

text \<open>
  The result of the authorization call of a run. A run gets past the authorization stage
  when no credential is configured, or when both halves are, the call succeeds and its
  output holds a token. \<open>run_base\<close> is the log of calls at that point and \<open>run_vars\<close> are
  the shell variables with which the downloads are then made.
\<close>

definition auth_result :: "world \<Rightarrow> environ \<Rightarrow> nat \<times> string" where
  "auth_result w env =
     auth_curl w (backblaze_key_id env @ '':'' @ backblaze_application_key env)
       (backblaze_auth_url env)"

definition reaches_fetches :: "world \<Rightarrow> environ \<Rightarrow> bool" where
  "reaches_fetches w env \<longleftrightarrow>
     backblaze_key_id env = [] \<and> backblaze_application_key env = [] \<or>
     backblaze_key_id env \<noteq> [] \<and> backblaze_application_key env \<noteq> [] \<and>
     fst (auth_result w env) = 0 \<and>
     extract_json_field (cmd_subst (snd (auth_result w env))) ''authorizationToken'' \<noteq> []"

definition run_base :: "environ \<Rightarrow> curl_call list" where
  "run_base env =
     (if backblaze_key_id env = [] \<and> backblaze_application_key env = [] then []
      else [CurlAuth (backblaze_key_id env @ '':'' @ backblaze_application_key env)
              (backblaze_auth_url env)])"

definition run_vars :: "world \<Rightarrow> environ \<Rightarrow> shell_vars" where
  "run_vars w env =
     (if backblaze_key_id env = [] \<and> backblaze_application_key env = [] then
        \<lparr>CONFIG_DIR = config_dir env, AUTH_HEADER = getenv env ''AUTH_HEADER'',
         BACKBLAZE_AUTH_HEADER = [], BACKBLAZE_DOWNLOAD_URL = []\<rparr>
      else
        \<lparr>CONFIG_DIR = config_dir env, AUTH_HEADER = getenv env ''AUTH_HEADER'',
         BACKBLAZE_AUTH_HEADER =
           ''Authorization: '' @
           extract_json_field (cmd_subst (snd (auth_result w env))) ''authorizationToken'',
         BACKBLAZE_DOWNLOAD_URL =
           extract_json_field (cmd_subst (snd (auth_result w env))) ''downloadUrl''\<rparr>)"

text \<open>
  An environment whose entries each make one line of the output of \<^verbatim>\<open>env\<close>: no newline in
  a name or a value, and no \<^verbatim>\<open>=\<close> in a name. And an environment whose lines for the
  variables \<^verbatim>\<open>CONFIG_URL_*\<close> and \<^verbatim>\<open>HANDLER_URL_*\<close> are text for \<^verbatim>\<open>grep\<close>.
\<close>

definition one_line :: "environ \<Rightarrow> bool" where
  "one_line e \<longleftrightarrow> (\<forall>(k, x)\<in>set e. CHR ''='' \<notin> set k \<and> NL \<notin> set k \<and> NL \<notin> set x)"

definition text_lines :: "world \<Rightarrow> environ \<Rightarrow> bool" where
  "text_lines w e \<longleftrightarrow>
     (\<forall>(k, x)\<in>set e. prefix ''CONFIG_URL_'' k \<or> prefix ''HANDLER_URL_'' k \<longrightarrow>
        grep_text w (k @ ''='' @ x))"

text \<open>
  A string of ASCII characters. Such a string is valid text in the \<^verbatim>\<open>C\<close> locale and in
  every UTF-8 locale, and \<^verbatim>\<open>sed\<close> reads it alike in all of them.
\<close>

definition is_ascii :: "string \<Rightarrow> bool" where
  "is_ascii s \<longleftrightarrow> list_all (\<lambda>c. (of_char c :: nat) < 128) s"

subsection \<open>The specification's wording, for comparison\<close>

text \<open>
  A failed fetch in the words of the specification: a non-2xx HTTP status, a transport
  error, or a local write failure.
\<close>

fun spec_fetch_failed :: "transfer \<Rightarrow> bool" where
  "spec_fetch_failed (Transport_Error n) = True"
| "spec_fetch_failed (Http_Answer status write_failed) =
     (status < 200 \<or> 300 \<le> status \<or> write_failed)"

text \<open>
  The applicability predicate in the words of the specification: the URL begins with the
  base download URL, or it contains the provider's domain.
\<close>

definition spec_is_backblaze_url :: "string \<Rightarrow> string \<Rightarrow> bool" where
  "spec_is_backblaze_url download_url url =
     (prefix download_url url \<or> sublist ''backblazeb2.com'' url)"

subsection \<open>Example worlds and inputs\<close>

text \<open>A response of the authorization endpoint with both fields.\<close>

definition example_response :: string where
  "example_response =
     ''{'' @ [DQUOTE] @ ''authorizationToken'' @ [DQUOTE] @ '': '' @ [DQUOTE] @ ''T1'' @ [DQUOTE] @
     '', '' @ [DQUOTE] @ ''downloadUrl'' @ [DQUOTE] @ '': '' @ [DQUOTE] @
     ''https://f001.example.com'' @ [DQUOTE] @ ''}''"

text \<open>
  A world in which every call succeeds (every download is answered with status 200 and
  written), the directory is not listed, \<^verbatim>\<open>echo\<close> prints backslashes as they are, and
  every line is text for \<^verbatim>\<open>grep\<close>.
\<close>

definition calm_world :: world where
  "calm_world =
     \<lparr>auth_curl = (\<lambda>user url. (0, example_response)),
      fetch_answer = (\<lambda>log call. Http_Answer 200 False),
      list_dir = (\<lambda>dir log. None),
      echo_backslash = (\<lambda>s. s @ [NL]),
      grep_text = (\<lambda>line. True)\<rparr>"

text \<open>The same world, but the authorization endpoint answers with an empty object.\<close>

definition tokenless_world :: world where
  "tokenless_world = calm_world\<lparr>auth_curl := (\<lambda>user url. (0, ''{}''))\<rparr>"

text \<open>
  The same world, but the server has no \<^verbatim>\<open>teams.yaml\<close> and answers that request with
  status 404.
\<close>

definition world_404 :: world where
  "world_404 =
     calm_world\<lparr>fetch_answer :=
       (\<lambda>log call. case call of
          CurlGet header url dest \<Rightarrow>
            if url = ''https://x/y/teams.yaml'' then Http_Answer 404 False
            else Http_Answer 200 False
        | CurlAuth user url \<Rightarrow> Http_Answer 200 False)\<rparr>"

text \<open>
  The same world, but the server answers the request for \<^verbatim>\<open>config.yaml\<close> with status 304
  (not modified): there is no body, and \<^verbatim>\<open>curl -f\<close> ends with status 0.
\<close>

definition world_304 :: world where
  "world_304 =
     calm_world\<lparr>fetch_answer :=
       (\<lambda>log call. case call of
          CurlGet header url dest \<Rightarrow>
            if url = ''https://x/y/config.yaml'' then Http_Answer 304 False
            else Http_Answer 200 False
        | CurlAuth user url \<Rightarrow> Http_Answer 200 False)\<rparr>"

text \<open>Shell variables after a successful authorization, without and with \<^verbatim>\<open>AUTH_HEADER\<close>.\<close>

definition authorized_vars :: shell_vars where
  "authorized_vars =
     \<lparr>CONFIG_DIR = ''/app/config'', AUTH_HEADER = [],
      BACKBLAZE_AUTH_HEADER = ''Authorization: T1'',
      BACKBLAZE_DOWNLOAD_URL = ''https://f001.example.com''\<rparr>"

definition overridden_vars :: shell_vars where
  "overridden_vars = authorized_vars\<lparr>AUTH_HEADER := ''Authorization: Bearer t1''\<rparr>"

section \<open>Properties\<close>

subsection \<open>Facts about the text utilities\<close>

lemma remove_prefix_changes:
  "p \<noteq> [] \<Longrightarrow> remove_prefix p s \<noteq> s \<longleftrightarrow> prefix p s"
proof -
  assume ne: "p \<noteq> []"
  have "take (length p) s = p \<longleftrightarrow> prefix p s"
    by (metis prefix_def append_eq_conv_conj append_take_drop_id)
  moreover have "drop (length p) s \<noteq> s" if "prefix p s"
  proof -
    from that obtain r where "s = p @ r" by (auto simp: prefix_def)
    with ne show ?thesis by (auto dest: arg_cong [where f = length])
  qed
  ultimately show ?thesis by (auto simp: remove_prefix_def)
qed

lemma glob_contains_sublist: "glob_contains lit s \<longleftrightarrow> sublist lit s"
proof (induction s)
  case Nil
  show ?case by simp
next
  case (Cons c cs)
  have "take (length lit) (c # cs) = lit \<longleftrightarrow> prefix lit (c # cs)"
    by (metis prefix_def append_eq_conv_conj append_take_drop_id)
  with Cons show ?case by (simp add: sublist_Cons_right)
qed

lemma of_char_to_lower:
  "(of_char (to_lower c) :: nat) =
     (if 65 \<le> (of_char c :: nat) \<and> (of_char c :: nat) \<le> 90 then of_char c + 32 else of_char c)"
  by (simp add: to_lower_def Let_def)

lemma to_lower_eq_NL: "to_lower c = NL \<longleftrightarrow> c = NL"
proof
  assume "to_lower c = NL"
  then have "(of_char (to_lower c) :: nat) = of_char NL" by simp
  then have "(of_char c :: nat) = of_char NL"
    by (simp add: of_char_to_lower split: if_splits)
  then show "c = NL" by (simp only: of_char_eq_iff)
next
  assume "c = NL"
  then show "to_lower c = NL" by (simp add: to_lower_def)
qed

lemma to_lower_eq_BACKSLASH: "to_lower c = BACKSLASH \<longleftrightarrow> c = BACKSLASH"
proof
  assume "to_lower c = BACKSLASH"
  then have "(of_char (to_lower c) :: nat) = of_char BACKSLASH" by simp
  then have "(of_char c :: nat) = of_char BACKSLASH"
    by (simp add: of_char_to_lower split: if_splits)
  then show "c = BACKSLASH" by (simp only: of_char_eq_iff)
next
  assume "c = BACKSLASH"
  then show "to_lower c = BACKSLASH" by (simp add: to_lower_def)
qed

lemma to_lower_idem [simp]: "to_lower (to_lower c) = to_lower c"
proof -
  have "(of_char (to_lower (to_lower c)) :: nat) = of_char (to_lower c)"
    by (simp add: of_char_to_lower)
  then show ?thesis by (simp only: of_char_eq_iff)
qed

lemma lines_snoc_NL: "NL \<notin> set l \<Longrightarrow> lines (l @ NL # rest) = l # lines rest"
  by (induction l) auto

lemma lines_not_Nil: "lines (t @ NL # rest) \<noteq> []"
  by (induction t) (auto split: list.splits)

lemma lines_append_NL: "lines (t @ NL # rest) = lines (t @ [NL]) @ lines rest"
proof (induction t)
  case Nil
  show ?case by simp
next
  case (Cons c t)
  show ?case
  proof (cases "c = NL")
    case True
    with Cons show ?thesis by simp
  next
    case False
    obtain l ls where l: "lines (t @ [NL]) = l # ls"
      using lines_not_Nil [of t "[]"] by (cases "lines (t @ [NL])") auto
    with Cons False show ?thesis by simp
  qed
qed

lemma cmd_subst_snoc_NL: "NL \<notin> set s \<Longrightarrow> cmd_subst (s @ [NL]) = s"
proof -
  assume a: "NL \<notin> set s"
  have "dropWhile (\<lambda>c. c = NL) (rev s) = rev s"
  proof (cases "rev s")
    case Nil
    then show ?thesis by simp
  next
    case (Cons x xs)
    then have "x \<in> set s" by (metis list.set_intros(1) set_rev)
    with a Cons show ?thesis by auto
  qed
  then show ?thesis by (simp add: cmd_subst_def)
qed

lemma derived_filename_eq:
  assumes "NL \<notin> set pfx" "NL \<notin> set X" "BACKSLASH \<notin> set pfx" "BACKSLASH \<notin> set X"
  shows "derived_filename w pfx sfx (pfx @ X) = map to_lower X @ sfx"
proof -
  have e: "echo w (pfx @ X) = (pfx @ X) @ [NL]"
    using assms(3,4) by (simp add: echo_def)
  have "lines ((pfx @ X) @ [NL]) = [pfx @ X]"
    using assms(1,2) lines_snoc_NL [of "pfx @ X" "[]"] by simp
  then have "sed_strip_prefix pfx (echo w (pfx @ X)) = X @ [NL]"
    unfolding e by (simp add: sed_strip_prefix_def unlines_def)
  then have "tr_upper_lower (sed_strip_prefix pfx (echo w (pfx @ X))) = map to_lower X @ [NL]"
    by (simp add: tr_upper_lower_def to_lower_eq_NL)
  moreover have "NL \<notin> set (map to_lower X)"
  proof
    assume "NL \<in> set (map to_lower X)"
    then obtain c where "c \<in> set X" "to_lower c = NL" by auto
    with assms(2) show False by (simp add: to_lower_eq_NL)
  qed
  ultimately show ?thesis
    by (simp add: derived_filename_def cmd_subst_snoc_NL)
qed

lemma read_name_url_entry:
  assumes "CHR ''='' \<notin> set k"
  shows "read_name_url (k @ ''='' @ x) = (k, read_rest x)"
proof -
  have "\<forall>c\<in>set k. c \<noteq> CHR ''=''" using assms by auto
  then show ?thesis
    by (simp add: read_name_url_def takeWhile_append2 dropWhile_append2)
qed

lemma prefix_entry:
  "CHR ''='' \<notin> set pfx \<Longrightarrow> prefix pfx (k @ ''='' @ x) \<longleftrightarrow> prefix pfx k"
  by (auto simp: prefix_append prefix_Cons)

lemma tr_delete_newline_cmd_subst: "tr_delete_newline (cmd_subst out) = tr_delete_newline out"
proof -
  have "filter (\<lambda>c. c \<noteq> NL) (dropWhile (\<lambda>c. c = NL) ys) = filter (\<lambda>c. c \<noteq> NL) ys" for ys
    by (induction ys) auto
  then show ?thesis
    by (simp add: tr_delete_newline_def cmd_subst_def rev_filter [symmetric])
qed

lemma sed_last_field_absent:
  "\<not> sublist (DQUOTE # field @ [DQUOTE]) s \<Longrightarrow> sed_last_field field s = None"
  by (induction s) (auto simp: sublist_Cons_right match_field_here_def)

lemma extract_json_field_absent:
  "\<not> sublist (DQUOTE # field @ [DQUOTE]) (tr_delete_newline out) \<Longrightarrow>
     extract_json_field (cmd_subst out) field = []"
  by (simp add: extract_json_field_def tr_delete_newline_cmd_subst sed_last_field_absent)

lemma match_field_here_subset: "match_field_here field s = Some v \<Longrightarrow> set v \<subseteq> set s"
proof -
  assume m: "match_field_here field s = Some v"
  define t1 where "t1 = dropWhile is_space (drop (length (DQUOTE # field @ [DQUOTE])) s)"
  have t1: "set t1 \<subseteq> set s"
    unfolding t1_def using set_drop_subset [of "length (DQUOTE # field @ [DQUOTE])" s]
    by (auto dest: set_dropWhileD)
  have u: "match_field_here field s =
     (if prefix (DQUOTE # field @ [DQUOTE]) s then
        (case t1 of
           [] \<Rightarrow> None
         | c # r1 \<Rightarrow>
             if c = CHR '':'' then
               (case dropWhile is_space r1 of
                  [] \<Rightarrow> None
                | d # r2 \<Rightarrow>
                    if d = DQUOTE \<and> DQUOTE \<in> set r2
                    then Some (takeWhile (\<lambda>x. x \<noteq> DQUOTE) r2)
                    else None)
             else None)
      else None)"
    unfolding match_field_here_def Let_def t1_def by (rule refl)
  show ?thesis
  proof (cases t1)
    case Nil
    with m u show ?thesis by (simp split: if_splits)
  next
    case (Cons c r1)
    define t2 where "t2 = dropWhile is_space r1"
    have t2: "set t2 \<subseteq> set r1" unfolding t2_def by (auto dest: set_dropWhileD)
    show ?thesis
    proof (cases t2)
      case Nil
      with m u Cons show ?thesis by (simp add: t2_def [symmetric] split: if_splits)
    next
      case c2: (Cons d r2)
      with m u Cons have "v = takeWhile (\<lambda>x. x \<noteq> DQUOTE) r2"
        by (simp add: t2_def [symmetric] split: if_splits)
      then have "set v \<subseteq> set r2" by (auto dest: set_takeWhileD)
      with c2 t2 Cons t1 show ?thesis by auto
    qed
  qed
qed

lemma sed_last_field_subset: "sed_last_field field s = Some v \<Longrightarrow> set v \<subseteq> set s"
proof (induction s)
  case Nil
  then show ?case by simp
next
  case (Cons c cs)
  show ?case
  proof (cases "sed_last_field field cs")
    case None
    with Cons.prems have "match_field_here field (c # cs) = Some v" by simp
    then show ?thesis by (rule match_field_here_subset)
  next
    case (Some u)
    with Cons.prems have "u = v" by simp
    with Some Cons.IH show ?thesis by auto
  qed
qed

lemma extract_json_field_one_line: "NL \<notin> set (extract_json_field p f)"
proof (cases "sed_last_field f (tr_delete_newline p)")
  case None
  then show ?thesis by (simp add: extract_json_field_def)
next
  case (Some v)
  from sed_last_field_subset [OF Some] have "set v \<subseteq> set (tr_delete_newline p)" .
  then have "NL \<notin> set v" by (auto simp: tr_delete_newline_def)
  with Some show ?thesis by (simp add: extract_json_field_def)
qed

subsection \<open>Facts about the loops\<close>

lemma fetch_lines_append:
  "fetch_lines w sv pfx sfx log (xs @ ys) =
     (case fetch_lines w sv pfx sfx log xs of
        (st, log') \<Rightarrow> if st \<noteq> 0 then (st, log') else fetch_lines w sv pfx sfx log' ys)"
  by (induction xs arbitrary: log) (auto split: prod.splits)

lemma fetch_lines_no_url:
  "\<forall>l\<in>set xs. snd (read_name_url l) = [] \<Longrightarrow> fetch_lines w sv pfx sfx log xs = (0, log)"
  by (induction xs) (auto split: prod.splits)

lemma read_name_url_Cons:
  "c \<noteq> CHR ''='' \<Longrightarrow> snd (read_name_url (c # l)) = snd (read_name_url l)"
  by (simp add: read_name_url_def)

lemma lines_of_empty_entry:
  "CHR ''='' \<notin> set k \<Longrightarrow> \<forall>l\<in>set (lines (k @ [CHR ''='', NL])). snd (read_name_url l) = []"
proof (induction k)
  case Nil
  show ?case by (simp add: read_name_url_def read_rest_def)
next
  case (Cons c k)
  then have ih: "\<forall>l\<in>set (lines (k @ [CHR ''='', NL])). snd (read_name_url l) = []"
    and c: "c \<noteq> CHR ''=''" by auto
  show ?case
  proof (cases "c = NL")
    case True
    with ih show ?thesis by (simp add: read_name_url_def read_rest_def)
  next
    case False
    obtain l ls where l: "lines (k @ [CHR ''='', NL]) = l # ls"
      using lines_not_Nil [of "k @ ''=''" "[]"] by (cases "lines (k @ [CHR ''='', NL])") auto
    with ih False c show ?thesis by (simp add: read_name_url_Cons)
  qed
qed

lemma grep_prefix_entry:
  "grep_prefix w pfx (env_output ((k, x) # es)) =
     grep_prefix w pfx (k @ CHR ''='' # x @ [NL]) @ grep_prefix w pfx (env_output es)"
proof -
  have "lines ((k @ CHR ''='' # x) @ NL # env_output es) =
          lines ((k @ CHR ''='' # x) @ [NL]) @ lines (env_output es)"
    by (rule lines_append_NL)
  then show ?thesis
    by (simp add: grep_prefix_def env_output_def)
qed

lemma fetch_env_files_Cons:
  "fetch_env_files w sv pfx sfx ((k, x) # es) log =
     (case fetch_lines w sv pfx sfx log (grep_prefix w pfx (k @ CHR ''='' # x @ [NL])) of
        (st, log') \<Rightarrow> if st \<noteq> 0 then (st, log') else fetch_env_files w sv pfx sfx es log')"
  by (simp add: fetch_env_files_def grep_prefix_entry fetch_lines_append split: prod.splits)

lemma fetch_env_files_Nil: "fetch_env_files w sv pfx sfx [] log = (0, log)"
  by (simp add: fetch_env_files_def grep_prefix_def env_output_def)

lemma grep_prefix_one_line:
  assumes "CHR ''='' \<notin> set pfx" "NL \<notin> set k" "NL \<notin> set x"
  shows "grep_prefix w pfx (k @ CHR ''='' # x @ [NL]) =
           (if prefix pfx k \<and> grep_text w (k @ CHR ''='' # x) then [k @ CHR ''='' # x] else [])"
proof -
  have "NL \<notin> set (k @ CHR ''='' # x)" using assms by simp
  then have "lines ((k @ CHR ''='' # x) @ [NL]) = [k @ CHR ''='' # x]"
    using lines_snoc_NL [of "k @ CHR ''='' # x" "[]"] by simp
  then show ?thesis
    using prefix_entry [OF assms(1), of k x] by (simp add: grep_prefix_def)
qed

lemma fetch_lines_entry:
  assumes "CHR ''='' \<notin> set k"
  shows "fetch_lines w sv pfx sfx log [k @ CHR ''='' # x] =
           (if read_rest x \<noteq> []
            then fetch_file w sv log (read_rest x)
                   (CONFIG_DIR sv @ ''/'' @ derived_filename w pfx sfx k)
            else (0, log))"
  using read_name_url_entry [OF assms, of x] by (simp split: prod.splits)



lemma fetch_env_files_calls:
  assumes eq: "CHR ''='' \<notin> set pfx"
    and wf: "\<forall>(k, x)\<in>set exported. CHR ''='' \<notin> set k \<and> NL \<notin> set k \<and> NL \<notin> set x"
  shows "\<exists>new. snd (fetch_env_files w sv pfx sfx exported log) = log @ new \<and>
           prefix new
             (map (\<lambda>(k, x). fetch_command sv (read_rest x)
                                (CONFIG_DIR sv @ ''/'' @ derived_filename w pfx sfx k))
                (filter (\<lambda>(k, x). prefix pfx k \<and> grep_text w (k @ CHR ''='' # x) \<and>
                                   read_rest x \<noteq> []) exported)) \<and>
           (fst (fetch_env_files w sv pfx sfx exported log) = 0 \<longrightarrow>
              new = map (\<lambda>(k, x). fetch_command sv (read_rest x)
                                (CONFIG_DIR sv @ ''/'' @ derived_filename w pfx sfx k))
                (filter (\<lambda>(k, x). prefix pfx k \<and> grep_text w (k @ CHR ''='' # x) \<and>
                                   read_rest x \<noteq> []) exported))"
proof -
  define f where "f = (\<lambda>(k, x). fetch_command sv (read_rest x)
                                (CONFIG_DIR sv @ ''/'' @ derived_filename w pfx sfx k))"
  define P where "P = (\<lambda>(k, x). prefix pfx k \<and> grep_text w (k @ CHR ''='' # x) \<and>
                                 read_rest x \<noteq> [])"
  have "\<exists>new. snd (fetch_env_files w sv pfx sfx exported log) = log @ new \<and>
           prefix new (map f (filter P exported)) \<and>
           (fst (fetch_env_files w sv pfx sfx exported log) = 0 \<longrightarrow>
              new = map f (filter P exported))"
    using wf
  proof (induction exported arbitrary: log)
    case Nil
    show ?case by (simp add: fetch_env_files_Nil)
  next
    case (Cons e es)
    obtain k x where e: "e = (k, x)" by (cases e)
    from Cons.prems e have k: "CHR ''='' \<notin> set k" "NL \<notin> set k" "NL \<notin> set x"
      and rest: "\<forall>(k, x)\<in>set es. CHR ''='' \<notin> set k \<and> NL \<notin> set k \<and> NL \<notin> set x"
      by auto
    note ih = Cons.IH [OF rest]
    have fe: "f (k, x) = fetch_command sv (read_rest x)
                      (CONFIG_DIR sv @ ''/'' @ derived_filename w pfx sfx k)"
      by (simp add: f_def)
    have step: "fetch_lines w sv pfx sfx log (grep_prefix w pfx (k @ CHR ''='' # x @ [NL])) =
        (if P e then (fetch_curl w log (f e), log @ [f e]) else (0, log))"
      by (simp add: grep_prefix_one_line [OF eq k(2,3)] fetch_lines_entry [OF k(1)]
          fetch_file_def Let_def fe P_def e del: fetch_lines.simps(2))
    show ?case
    proof (cases "P e")
      case False
      then have "fetch_env_files w sv pfx sfx (e # es) log = fetch_env_files w sv pfx sfx es log"
        by (simp add: e [symmetric] step fetch_env_files_Cons [of w sv pfx sfx k x es log, folded e])
      with False ih [of log] show ?thesis by simp
    next
      case True
      show ?thesis
      proof (cases "fetch_curl w log (f e) = 0")
        case ok: True
        with True have r: "fetch_env_files w sv pfx sfx (e # es) log =
                        fetch_env_files w sv pfx sfx es (log @ [f e])"
          by (simp add: step fetch_env_files_Cons [of w sv pfx sfx k x es log, folded e])
        from ih [of "log @ [f e]"] obtain new where new:
          "snd (fetch_env_files w sv pfx sfx es (log @ [f e])) = (log @ [f e]) @ new"
          "prefix new (map f (filter P es))"
          "fst (fetch_env_files w sv pfx sfx es (log @ [f e])) = 0 \<longrightarrow> new = map f (filter P es)"
          by (elim exE conjE)
        show ?thesis
          using True new unfolding r by (intro exI [of _ "f e # new"]) simp
      next
        case failed: False
        with True have r: "fetch_env_files w sv pfx sfx (e # es) log =
             (fetch_curl w log (f e), log @ [f e])"
          by (simp add: step fetch_env_files_Cons [of w sv pfx sfx k x es log, folded e])
        show ?thesis
          using True failed unfolding r by (intro exI [of _ "[f e]"]) simp
      qed
    qed
  qed
  then show ?thesis unfolding f_def P_def .
qed

lemma fetch_env_files_filter:
  assumes "\<forall>(k, x)\<in>set exported. CHR ''='' \<notin> set k"
    and "\<forall>(k, x)\<in>set exported. \<not> P (k, x) \<longrightarrow> x = []"
  shows "fetch_env_files w sv pfx sfx (filter P exported) log =
         fetch_env_files w sv pfx sfx exported log"
  using assms
proof (induction exported arbitrary: log)
  case Nil
  show ?case by simp
next
  case (Cons e es)
  obtain k x where e: "e = (k, x)" by (cases e)
  from Cons.prems e have k: "CHR ''='' \<notin> set k"
    and rest: "\<forall>(k, x)\<in>set es. CHR ''='' \<notin> set k"
      "\<forall>(k, x)\<in>set es. \<not> P (k, x) \<longrightarrow> x = []"
    and x: "\<not> P (k, x) \<longrightarrow> x = []"
    by auto
  note ih = Cons.IH [OF rest]
  show ?case
  proof (cases "P (k, x)")
    case True
    then show ?thesis by (simp add: e fetch_env_files_Cons ih split: prod.splits)
  next
    case False
    with x have x0: "x = []" by simp
    have "\<forall>l\<in>set (grep_prefix w pfx (k @ [CHR ''='', NL])). snd (read_name_url l) = []"
      using lines_of_empty_entry [OF k] by (simp add: grep_prefix_def)
    then have "fetch_lines w sv pfx sfx log (grep_prefix w pfx (k @ [CHR ''='', NL])) = (0, log)"
      by (rule fetch_lines_no_url)
    with False x0 show ?thesis by (simp add: e fetch_env_files_Cons ih)
  qed
qed

subsection \<open>Facts about the environment and the script\<close>

lemma map_fst_assign [simp]: "map fst (assign n v e) = map fst e"
  by (induction e) (auto simp: assign_def)

lemma getenv_assign_other: "m \<noteq> n \<Longrightarrow> getenv (assign n v e) m = getenv e m"
  by (induction e) (auto simp: assign_def getenv_def)

lemma getenv_filter:
  assumes "distinct (map fst e)" "\<forall>(k, x)\<in>set e. \<not> P (k, x) \<longrightarrow> x = []"
  shows "getenv (filter P e) m = getenv e m"
  using assms
proof (induction e)
  case Nil
  show ?case by simp
next
  case (Cons a e)
  obtain k x where a: "a = (k, x)" by (cases a)
  from Cons.prems a have ih: "getenv (filter P e) m = getenv e m"
    and k: "k \<notin> fst ` set e" and x: "\<not> P (k, x) \<longrightarrow> x = []"
    using Cons.IH by auto
  show ?case
  proof (cases "P (k, x)")
    case True
    with ih show ?thesis by (simp add: a getenv_def)
  next
    case False
    with x have x0: "x = []" by simp
    show ?thesis
    proof (cases "m = k")
      case True
      with k have "map_of (filter P e) m = None"
        by (auto simp: map_of_eq_None_iff)
      with True False x0 show ?thesis by (simp add: a getenv_def)
    next
      case False
      with \<open>\<not> P (k, x)\<close> ih show ?thesis by (simp add: a getenv_def)
    qed
  qed
qed

lemma assign_filter:
  "\<forall>x. P (n, x) \<Longrightarrow> assign n v (filter P e) = filter P (assign n v e)"
  by (induction e) (auto simp: assign_def split: if_splits)

lemma assign_keeps_names:
  "\<forall>(k, x)\<in>set e. CHR ''='' \<notin> set k \<Longrightarrow> \<forall>(k, x)\<in>set (assign n v e). CHR ''='' \<notin> set k"
  by (auto simp: assign_def split: if_splits)

lemma assign_keeps_removed:
  "\<forall>x. P (n, x) \<Longrightarrow> \<forall>(k, x)\<in>set e. \<not> P (k, x) \<longrightarrow> x = [] \<Longrightarrow>
     \<forall>(k, x)\<in>set (assign n v e). \<not> P (k, x) \<longrightarrow> x = []"
  by (auto simp: assign_def split: if_splits)

lemma removable_assign: "\<forall>x. P (n, x) \<Longrightarrow> removable P e \<Longrightarrow> removable P (assign n v e)"
  unfolding removable_def
  using assign_keeps_names [of e n v] assign_keeps_removed [of P n e v] by simp

lemma assign_absent: "n \<notin> fst ` set e \<Longrightarrow> assign n v e = e"
  by (induction e) (auto simp: assign_def)

lemma one_line_assign: "one_line e \<Longrightarrow> NL \<notin> set v \<Longrightarrow> one_line (assign n v e)"
  by (auto simp: one_line_def assign_def split: if_splits)

lemma text_lines_assign:
  "\<not> is_fetch_variable n \<Longrightarrow> text_lines w e \<Longrightarrow> text_lines w (assign n v e)"
  by (auto simp: text_lines_def assign_def is_fetch_variable_def split: if_splits)

lemma getenv_one_line: "one_line e \<Longrightarrow> NL \<notin> set (getenv e m)"
proof (cases "map_of e m")
  case None
  then show ?thesis by (simp add: getenv_def)
next
  case (Some v)
  assume "one_line e"
  moreover from Some have "(m, v) \<in> set e" by (rule map_of_SomeD)
  ultimately have "NL \<notin> set v" by (auto simp: one_line_def)
  with Some show ?thesis by (simp add: getenv_def)
qed

lemma filter_assign:
  "\<not> P n \<Longrightarrow> filter (\<lambda>(k, x). P k \<and> Q x) (assign n v e) = filter (\<lambda>(k, x). P k \<and> Q x) e"
  by (induction e) (auto simp: assign_def split: if_splits)

lemma loop_fetches_assign:
  "\<not> prefix pfx n \<Longrightarrow> loop_fetches w sv pfx sfx (assign n v e) = loop_fetches w sv pfx sfx e"
  unfolding loop_fetches_def
  using filter_assign [of "prefix pfx" n "\<lambda>x. read_rest x \<noteq> []" v e] by simp

lemma expected_fetches_assign:
  assumes "\<not> is_fetch_variable n"
  shows "expected_fetches w sv (assign n v e) = expected_fetches w sv e"
proof -
  from assms have n: "''LITELLM_CONFIG_URL'' \<noteq> n" "\<not> prefix ''CONFIG_URL_'' n"
    "\<not> prefix ''HANDLER_URL_'' n"
    by (auto simp: is_fetch_variable_def)
  show ?thesis
    unfolding expected_fetches_def
    by (simp only: loop_fetches_assign [OF n(2)] loop_fetches_assign [OF n(3)]
        getenv_assign_other [OF n(1)])
qed

lemma names_assign: "fst ` set (assign n v e) = fst ` set e"
  using map_fst_assign [of n v e] by (metis set_map)

lemma fetch_and_exec_filter:
  assumes r: "removable P st" and u: "\<forall>x. P (''url'', x)" and d: "\<forall>x. P (''dest'', x)"
  shows "fetch_and_exec w (filter P st) sv log args = fetch_and_exec w st sv log args"
proof -
  define st0 where "st0 =
    (if getenv st ''LITELLM_CONFIG_URL'' \<noteq> []
     then assign ''dest'' (CONFIG_DIR sv @ ''/config.yaml'')
            (assign ''url'' (getenv st ''LITELLM_CONFIG_URL'') st)
     else st)"
  have g: "getenv (filter P st) m = getenv st m" for m
    using r by (simp add: removable_def getenv_filter)
  have r0: "removable P st0"
    using r u d by (simp add: st0_def removable_assign)
  have e0: "(if getenv st ''LITELLM_CONFIG_URL'' \<noteq> []
     then assign ''dest'' (CONFIG_DIR sv @ ''/config.yaml'')
            (assign ''url'' (getenv st ''LITELLM_CONFIG_URL'') (filter P st))
     else filter P st) = filter P st0"
    using u d by (simp add: st0_def assign_filter)
  have f: "fetch_env_files w sv pfx sfx (filter P st0) l = fetch_env_files w sv pfx sfx st0 l"
    for pfx sfx l
    using r0 by (simp add: removable_def fetch_env_files_filter)
  have g0: "getenv (filter P st0) m = getenv st0 m" for m
    using r0 by (simp add: removable_def getenv_filter)
  show ?thesis
    unfolding fetch_and_exec_def Let_def g e0
    unfolding f g0
    unfolding st0_def
    by (rule refl)
qed

lemma main_filter:
  assumes r: "removable P env"
    and keep: "\<And>n x. \<not> is_fetch_variable n \<Longrightarrow> P (n, x)"
  shows "main w (filter P env) args = main w env args"
proof -
  have g: "getenv (filter P env) m = getenv env m" for m
    using r by (simp add: removable_def getenv_filter)
  have k: "\<forall>x. P (n, x)" if "\<not> is_fetch_variable n" for n
    using keep that by simp
  have af: "assign n v (filter P e) = filter P (assign n v e)" if "\<not> is_fetch_variable n" for n v e
    using k [OF that] by (rule assign_filter)
  have ra: "removable P (assign n v e)" if "\<not> is_fetch_variable n" "removable P e" for n v e
    using k [OF that(1)] that(2) by (rule removable_assign)
  have ff: "fetch_and_exec w (filter P e) sv log args = fetch_and_exec w e sv log args"
    if "removable P e" for e sv log
    using that k [of "''url''"] k [of "''dest''"]
    by (intro fetch_and_exec_filter) (simp_all add: is_fetch_variable_def)
  have n: "\<not> is_fetch_variable ''CONFIG_DIR''" "\<not> is_fetch_variable ''BACKBLAZE_AUTH_URL''"
    "\<not> is_fetch_variable ''BACKBLAZE_KEY_ID''" "\<not> is_fetch_variable ''BACKBLAZE_APPLICATION_KEY''"
    "\<not> is_fetch_variable ''BACKBLAZE_AUTH_HEADER''" "\<not> is_fetch_variable ''BACKBLAZE_DOWNLOAD_URL''"
    "\<not> is_fetch_variable ''backblaze_auth_token''" "\<not> is_fetch_variable ''backblaze_auth_response''"
    by (simp_all add: is_fetch_variable_def)
  have c: "config_dir (filter P env) = config_dir env"
    "backblaze_auth_url (filter P env) = backblaze_auth_url env"
    "backblaze_key_id (filter P env) = backblaze_key_id env"
    "backblaze_application_key (filter P env) = backblaze_application_key env"
    by (simp_all add: config_dir_def backblaze_auth_url_def backblaze_key_id_def
        backblaze_application_key_def g)
  show ?thesis
    unfolding main_def Let_def c g
    by (simp add: af n ff ra r split: prod.splits)
qed

lemma fetch_and_exec_Exec:
  "outcome (fetch_and_exec w exported sv log args) = Exec pp a \<Longrightarrow>
     pp = CONFIG_DIR sv @ '':'' @ getenv exported ''PYTHONPATH'' \<and> a = args"
  by (auto simp: fetch_and_exec_def Let_def getenv_assign_other
      split: prod.splits if_splits option.splits)

subsection \<open>Facts about the log of calls\<close>

lemma curl_exit_failed: "curl_exit a \<noteq> 0 \<longleftrightarrow> curl_failed a"
  by (cases a) auto

lemma trace_ok_Nil [simp]: "trace_ok w log [] 0"
  by (simp add: trace_ok_def)

lemma trace_ok_single: "trace_ok w log [c] (fetch_curl w log c)"
  by (auto simp: trace_ok_def Cons_eq_append_conv)

lemma trace_ok_append:
  assumes "trace_ok w log n1 0" "trace_ok w (log @ n1) n2 st"
  shows "trace_ok w log (n1 @ n2) st"
  unfolding trace_ok_def
proof (intro conjI allI impI)
  assume "st \<noteq> 0"
  with assms(2) show "n1 @ n2 \<noteq> []" by (simp add: trace_ok_def)
next
  fix pre c post
  assume eq: "n1 @ n2 = pre @ c # post"
  then consider us where "n1 = pre @ c # us" "post = us @ n2"
    | us where "pre = n1 @ us" "n2 = us @ c # post"
    by (auto simp: append_eq_append_conv2 Cons_eq_append_conv append_eq_Cons_conv)
  then show "fetch_curl w (log @ pre) c = (if post = [] then st else 0)"
  proof cases
    case 1
    with assms(1) have "fetch_curl w (log @ pre) c = 0"
      by (auto simp: trace_ok_def split: if_splits)
    moreover have "st = 0" if "post = []"
      using that 1 assms(2) by (auto simp: trace_ok_def)
    ultimately show ?thesis by simp
  next
    case 2
    with assms(2) show ?thesis by (auto simp: trace_ok_def)
  qed
qed

lemma fetch_lines_trace:
  "\<exists>new. snd (fetch_lines w sv pfx sfx log ls) = log @ new \<and>
         trace_ok w log new (fst (fetch_lines w sv pfx sfx log ls))"
proof (induction ls arbitrary: log)
  case Nil
  show ?case by simp
next
  case (Cons line rest)
  obtain name url where r: "read_name_url line = (name, url)" by (cases "read_name_url line")
  show ?case
  proof (cases "url = []")
    case True
    with r Cons [of log] show ?thesis by simp
  next
    case False
    define c where "c = fetch_command sv url (CONFIG_DIR sv @ ''/'' @ derived_filename w pfx sfx name)"
    show ?thesis
    proof (cases "fetch_curl w log c = 0")
      case True
      from Cons [of "log @ [c]"] obtain new where
        new: "snd (fetch_lines w sv pfx sfx (log @ [c]) rest) = (log @ [c]) @ new"
          "trace_ok w (log @ [c]) new (fst (fetch_lines w sv pfx sfx (log @ [c]) rest))"
        by blast
      have "trace_ok w log ([c] @ new) (fst (fetch_lines w sv pfx sfx (log @ [c]) rest))"
        using trace_ok_single [of w log c] True new(2)
        by (intro trace_ok_append [of w log "[c]" new]) simp_all
      with new(1) True False r show ?thesis
        by (auto simp: fetch_file_def Let_def c_def)
    next
      case f: False
      with False r trace_ok_single [of w log c] show ?thesis
        by (auto simp: fetch_file_def Let_def c_def)
    qed
  qed
qed

lemma fetch_env_files_trace:
  "\<exists>new. snd (fetch_env_files w sv pfx sfx exported log) = log @ new \<and>
         trace_ok w log new (fst (fetch_env_files w sv pfx sfx exported log))"
  unfolding fetch_env_files_def by (rule fetch_lines_trace)

lemma fetch_and_exec_trace:
  "\<exists>new st. calls (fetch_and_exec w exported sv log args) = log @ new \<and> trace_ok w log new st \<and>
     (st \<noteq> 0 \<longrightarrow> outcome (fetch_and_exec w exported sv log args) = Exit st)"
proof -
  define url where "url = getenv exported ''LITELLM_CONFIG_URL''"
  define st0 log0 where "st0 = (if url \<noteq> [] then fst (fetch_file w sv log url (CONFIG_DIR sv @ ''/config.yaml'')) else 0)"
    and "log0 = (if url \<noteq> [] then snd (fetch_file w sv log url (CONFIG_DIR sv @ ''/config.yaml'')) else log)"
  define exported0 where "exported0 =
     (if url \<noteq> [] then assign ''dest'' (CONFIG_DIR sv @ ''/config.yaml'') (assign ''url'' url exported)
      else exported)"
  obtain n0 where n0: "log0 = log @ n0" "trace_ok w log n0 st0"
    using trace_ok_single [of w log "fetch_command sv url (CONFIG_DIR sv @ ''/config.yaml'')"]
    by (cases "url = []") (auto simp: st0_def log0_def fetch_file_def Let_def)
  define r1 where "r1 = fetch_env_files w sv ''CONFIG_URL_'' ''.yaml'' exported0 log0"
  obtain n1 where n1: "snd r1 = log0 @ n1" "trace_ok w log0 n1 (fst r1)"
    using fetch_env_files_trace [of w sv _ _ exported0 log0] unfolding r1_def by blast
  define r2 where "r2 = fetch_env_files w sv ''HANDLER_URL_'' ''_handler.py'' exported0 (snd r1)"
  obtain n2 where n2: "snd r2 = snd r1 @ n2" "trace_ok w (snd r1) n2 (fst r2)"
    using fetch_env_files_trace [of w sv _ _ exported0 "snd r1"] unfolding r2_def by blast
  have unf: "fetch_and_exec w exported sv log args =
    (if st0 \<noteq> 0 then \<lparr>outcome = Exit st0, calls = log0, stderr = []\<rparr>
     else if fst r1 \<noteq> 0 then \<lparr>outcome = Exit (fst r1), calls = snd r1, stderr = []\<rparr>
     else if fst r2 \<noteq> 0 then \<lparr>outcome = Exit (fst r2), calls = snd r2, stderr = []\<rparr>
     else (let st3 = (case list_dir w (CONFIG_DIR sv) (snd r2) of None \<Rightarrow> 0 | Some st \<Rightarrow> st)
           in if st3 \<noteq> 0 then \<lparr>outcome = Exit st3, calls = snd r2, stderr = []\<rparr>
              else \<lparr>outcome = Exec (CONFIG_DIR sv @ '':'' @ getenv exported0 ''PYTHONPATH'') args,
                    calls = snd r2, stderr = []\<rparr>))"
    unfolding fetch_and_exec_def Let_def url_def [symmetric] exported0_def [symmetric]
      case_prod_beta r1_def r2_def st0_def log0_def
    by (cases "url = []") simp_all
  show ?thesis
  proof (cases "st0 \<noteq> 0")
    case True
    with n0 have "calls (fetch_and_exec w exported sv log args) = log @ n0"
      "outcome (fetch_and_exec w exported sv log args) = Exit st0"
      by (simp_all add: unf)
    with n0 show ?thesis by blast
  next
    case s0: False
    show ?thesis
    proof (cases "fst r1 \<noteq> 0")
      case True
      have "trace_ok w log (n0 @ n1) (fst r1)"
        using n0 n1 s0 by (intro trace_ok_append [of w log n0 n1]) simp_all
      moreover from True s0 n0 n1 have
        "calls (fetch_and_exec w exported sv log args) = log @ n0 @ n1"
        "outcome (fetch_and_exec w exported sv log args) = Exit (fst r1)"
        by (simp_all add: unf)
      ultimately show ?thesis by blast
    next
      case s1: False
      have t1: "trace_ok w log (n0 @ n1) 0"
        using n0 n1 s0 s1 by (intro trace_ok_append [of w log n0 n1]) simp_all
      have "trace_ok w (log @ (n0 @ n1)) n2 (fst r2)"
        using n0 n1 n2 by simp
      with t1 have t2: "trace_ok w log ((n0 @ n1) @ n2) (fst r2)"
        by (rule trace_ok_append)
      show ?thesis
      proof (cases "fst r2 \<noteq> 0")
        case True
        with s0 s1 n0 n1 n2 have
          "calls (fetch_and_exec w exported sv log args) = log @ (n0 @ n1) @ n2"
          "outcome (fetch_and_exec w exported sv log args) = Exit (fst r2)"
          by (simp_all add: unf)
        with t2 show ?thesis by blast
      next
        case False
        with t2 have "trace_ok w log (n0 @ n1 @ n2) 0" by simp
        moreover have "calls (fetch_and_exec w exported sv log args) = log @ n0 @ n1 @ n2"
          using False s0 s1 n0 n1 n2 unf by (simp add: Let_def)
        ultimately show ?thesis by blast
      qed
    qed
  qed
qed

lemma main_trace:
  "\<exists>base new st. calls (main w env args) = base @ new \<and>
     (base = [] \<or> (\<exists>u a. base = [CurlAuth u a])) \<and> trace_ok w base new st \<and>
     (st \<noteq> 0 \<longrightarrow> outcome (main w env args) = Exit st)"
proof -
  have stop: ?thesis if "calls (main w env args) = base" "base = [] \<or> (\<exists>u a. base = [CurlAuth u a])"
    for base
    using that trace_ok_Nil [of w base] by (intro exI [of _ base] exI [of _ "[]"] exI [of _ 0]) simp
  have cont: ?thesis
    if "main w env args = fetch_and_exec w exported sv base args"
      "base = [] \<or> (\<exists>u a. base = [CurlAuth u a])" for exported sv base
    using fetch_and_exec_trace [of w exported sv base args] that by auto
  obtain st out where a: "auth_curl w (backblaze_key_id env @ '':'' @ backblaze_application_key env)
      (backblaze_auth_url env) = (st, out)"
    by (cases "auth_curl w (backblaze_key_id env @ '':'' @ backblaze_application_key env)
      (backblaze_auth_url env)")
  show ?thesis
  proof (cases "backblaze_key_id env \<noteq> [] \<or> backblaze_application_key env \<noteq> []")
    case False
    then show ?thesis by (intro cont [where base = "[]"]) (simp_all add: main_def Let_def)
  next
    case some: True
    show ?thesis
    proof (cases "backblaze_key_id env = [] \<or> backblaze_application_key env = []")
      case True
      with some show ?thesis by (intro stop [where base = "[]"]) (simp_all add: main_def Let_def)
    next
      case both: False
      show ?thesis
      proof (cases "st \<noteq> 0 \<or> extract_json_field (cmd_subst out) ''authorizationToken'' = []")
        case True
        with some both a show ?thesis
          by (intro stop [where base = "[CurlAuth (backblaze_key_id env @ '':'' @ backblaze_application_key env)
      (backblaze_auth_url env)]"]) (auto simp: main_def Let_def)
      next
        case False
        with some both a show ?thesis
          by (intro cont [where base = "[CurlAuth (backblaze_key_id env @ '':'' @ backblaze_application_key env)
      (backblaze_auth_url env)]"]) (simp_all add: main_def Let_def)
      qed
    qed
  qed
qed

subsection \<open>The fetch attempts of a run\<close>

lemma fetch_env_files_exact:
  assumes eq: "CHR ''='' \<notin> set pfx" and ol: "one_line exported"
    and tl: "\<forall>(k, x)\<in>set exported. prefix pfx k \<longrightarrow> grep_text w (k @ CHR ''='' # x)"
  shows "\<exists>new. snd (fetch_env_files w sv pfx sfx exported log) = log @ new \<and>
           prefix new (loop_fetches w sv pfx sfx exported) \<and>
           (fst (fetch_env_files w sv pfx sfx exported log) = 0 \<longrightarrow>
              new = loop_fetches w sv pfx sfx exported) \<and>
           trace_ok w log new (fst (fetch_env_files w sv pfx sfx exported log))"
proof -
  define r where "r = fetch_env_files w sv pfx sfx exported log"
  define E where "E = loop_fetches w sv pfx sfx exported"
  have f: "filter (\<lambda>(k, x). prefix pfx k \<and> grep_text w (k @ CHR ''='' # x) \<and> read_rest x \<noteq> [])
             exported =
           filter (\<lambda>(k, x). prefix pfx k \<and> read_rest x \<noteq> []) exported"
    using tl by (intro filter_cong refl) auto
  from ol have wf: "\<forall>(k, x)\<in>set exported. CHR ''='' \<notin> set k \<and> NL \<notin> set k \<and> NL \<notin> set x"
    by (simp add: one_line_def)
  have "\<exists>new. snd r = log @ new \<and> prefix new E \<and> (fst r = 0 \<longrightarrow> new = E)"
    using fetch_env_files_calls [OF eq wf, of w sv sfx log]
    unfolding f r_def E_def loop_fetches_def .
  then obtain new where new: "snd r = log @ new" "prefix new E" "fst r = 0 \<longrightarrow> new = E"
    by (elim exE conjE)
  from fetch_env_files_trace [of w sv pfx sfx exported log] obtain new' where new':
    "snd r = log @ new'" "trace_ok w log new' (fst r)"
    unfolding r_def by (elim exE conjE)
  from new(1) new'(1) have "new' = new" by simp
  with new new'(2) have "snd r = log @ new \<and> prefix new E \<and> (fst r = 0 \<longrightarrow> new = E) \<and>
      trace_ok w log new (fst r)" by simp
  then show ?thesis unfolding r_def E_def by (rule exI)
qed

lemma prefix_append_same: "prefix n E \<Longrightarrow> prefix (a @ n) (a @ E @ F)"
  by (auto simp: prefix_def)

lemma fetch_and_exec_exact:
  assumes ol: "one_line exported" and tl: "text_lines w exported"
    and cd: "NL \<notin> set (CONFIG_DIR sv)"
  shows "\<exists>new st. calls (fetch_and_exec w exported sv log args) = log @ new \<and>
     prefix new (expected_fetches w sv exported) \<and> trace_ok w log new st \<and>
     (st = 0 \<longrightarrow> new = expected_fetches w sv exported) \<and>
     (st \<noteq> 0 \<longrightarrow> outcome (fetch_and_exec w exported sv log args) = Exit st)"
proof -
  define url where "url = getenv exported ''LITELLM_CONFIG_URL''"
  define c0 where "c0 = fetch_command sv url (CONFIG_DIR sv @ ''/config.yaml'')"
  define E0 where "E0 = (if url \<noteq> [] then [c0] else [])"
  define st0 log0 where "st0 = (if url \<noteq> [] then fst (fetch_file w sv log url (CONFIG_DIR sv @ ''/config.yaml'')) else 0)"
    and "log0 = (if url \<noteq> [] then snd (fetch_file w sv log url (CONFIG_DIR sv @ ''/config.yaml'')) else log)"
  define exported0 where "exported0 =
     (if url \<noteq> [] then assign ''dest'' (CONFIG_DIR sv @ ''/config.yaml'') (assign ''url'' url exported)
      else exported)"
  define E1 where "E1 = loop_fetches w sv ''CONFIG_URL_'' ''.yaml'' exported"
  define E2 where "E2 = loop_fetches w sv ''HANDLER_URL_'' ''_handler.py'' exported"
  have E: "expected_fetches w sv exported = E0 @ E1 @ E2"
    by (simp add: expected_fetches_def E0_def E1_def E2_def c0_def url_def)
  have n0: "log0 = log @ E0 \<and> trace_ok w log E0 st0"
  proof (cases "url = []")
    case True
    then show ?thesis by (simp add: st0_def log0_def E0_def)
  next
    case False
    then have "log0 = log @ [c0]" "st0 = fetch_curl w log c0" "E0 = [c0]"
      by (simp_all add: st0_def log0_def E0_def c0_def fetch_file_def Let_def)
    then show ?thesis using trace_ok_single [of w log c0] by simp
  qed
  then have n0: "log0 = log @ E0" "trace_ok w log E0 st0" by simp_all
  have nu: "NL \<notin> set url" unfolding url_def using ol by (rule getenv_one_line)
  have nf: "\<not> is_fetch_variable ''url''" "\<not> is_fetch_variable ''dest''"
    by (simp_all add: is_fetch_variable_def)
  have ol0: "one_line exported0"
    unfolding exported0_def using ol nu cd by (simp add: one_line_assign)
  have tl0: "text_lines w exported0"
    unfolding exported0_def using tl nf by (simp add: text_lines_assign)
  have l1: "loop_fetches w sv ''CONFIG_URL_'' ''.yaml'' exported0 = E1"
    unfolding exported0_def E1_def by (simp add: loop_fetches_assign)
  have l2: "loop_fetches w sv ''HANDLER_URL_'' ''_handler.py'' exported0 = E2"
    unfolding exported0_def E2_def by (simp add: loop_fetches_assign)
  have t1: "\<forall>(k, x)\<in>set exported0. prefix ''CONFIG_URL_'' k \<longrightarrow> grep_text w (k @ CHR ''='' # x)"
    using tl0 by (auto simp: text_lines_def)
  have t2: "\<forall>(k, x)\<in>set exported0. prefix ''HANDLER_URL_'' k \<longrightarrow> grep_text w (k @ CHR ''='' # x)"
    using tl0 by (auto simp: text_lines_def)
  define r1 where "r1 = fetch_env_files w sv ''CONFIG_URL_'' ''.yaml'' exported0 log0"
  obtain n1 where n1: "snd r1 = log0 @ n1" "prefix n1 E1" "fst r1 = 0 \<longrightarrow> n1 = E1"
      "trace_ok w log0 n1 (fst r1)"
    using fetch_env_files_exact [OF _ ol0 t1, of sv "''.yaml''" log0]
    unfolding r1_def l1 by auto
  define r2 where "r2 = fetch_env_files w sv ''HANDLER_URL_'' ''_handler.py'' exported0 (snd r1)"
  obtain n2 where n2: "snd r2 = snd r1 @ n2" "prefix n2 E2" "fst r2 = 0 \<longrightarrow> n2 = E2"
      "trace_ok w (snd r1) n2 (fst r2)"
    using fetch_env_files_exact [OF _ ol0 t2, of sv "''_handler.py''" "snd r1"]
    unfolding r2_def l2 by auto
  have unf: "fetch_and_exec w exported sv log args =
    (if st0 \<noteq> 0 then \<lparr>outcome = Exit st0, calls = log0, stderr = []\<rparr>
     else if fst r1 \<noteq> 0 then \<lparr>outcome = Exit (fst r1), calls = snd r1, stderr = []\<rparr>
     else if fst r2 \<noteq> 0 then \<lparr>outcome = Exit (fst r2), calls = snd r2, stderr = []\<rparr>
     else (let st3 = (case list_dir w (CONFIG_DIR sv) (snd r2) of None \<Rightarrow> 0 | Some st \<Rightarrow> st)
           in if st3 \<noteq> 0 then \<lparr>outcome = Exit st3, calls = snd r2, stderr = []\<rparr>
              else \<lparr>outcome = Exec (CONFIG_DIR sv @ '':'' @ getenv exported0 ''PYTHONPATH'') args,
                    calls = snd r2, stderr = []\<rparr>))"
    unfolding fetch_and_exec_def Let_def url_def [symmetric] exported0_def [symmetric]
      case_prod_beta r1_def r2_def st0_def log0_def
    by (cases "url = []") simp_all
  define R where "R = fetch_and_exec w exported sv log args"
  have goal: "\<exists>new st. calls R = log @ new \<and> prefix new (E0 @ E1 @ E2) \<and> trace_ok w log new st \<and>
     (st = 0 \<longrightarrow> new = E0 @ E1 @ E2) \<and> (st \<noteq> 0 \<longrightarrow> outcome R = Exit st)"
  proof (cases "st0 \<noteq> 0")
    case True
    with n0 have "calls R = log @ E0" "outcome R = Exit st0"
      by (simp_all add: unf R_def)
    moreover have "prefix E0 (E0 @ E1 @ E2)" by simp
    ultimately show ?thesis using n0(2) True
      by (intro exI [of _ E0] exI [of _ st0]) simp
  next
    case s0: False
    show ?thesis
    proof (cases "fst r1 \<noteq> 0")
      case True
      have "trace_ok w log (E0 @ n1) (fst r1)"
        using n0 n1 s0 by (intro trace_ok_append [of w log E0 n1]) simp_all
      moreover from True s0 n0 n1 have
        "calls R = log @ E0 @ n1" "outcome R = Exit (fst r1)"
        by (simp_all add: unf R_def)
      moreover have "prefix (E0 @ n1) (E0 @ E1 @ E2)"
        using n1(2) by (rule prefix_append_same)
      ultimately show ?thesis using True
        by (intro exI [of _ "E0 @ n1"] exI [of _ "fst r1"]) simp
    next
      case s1: False
      with n1 have e1: "n1 = E1" by simp
      have t1: "trace_ok w log (E0 @ n1) 0"
        using n0 n1 s0 s1 by (intro trace_ok_append [of w log E0 n1]) simp_all
      have "trace_ok w (log @ (E0 @ n1)) n2 (fst r2)"
        using n0 n1 n2 by simp
      with t1 have t2: "trace_ok w log ((E0 @ n1) @ n2) (fst r2)"
        by (rule trace_ok_append)
      have p2: "prefix (E0 @ E1 @ n2) (E0 @ E1 @ E2)"
        using n2(2) by simp
      show ?thesis
      proof (cases "fst r2 \<noteq> 0")
        case True
        with s0 s1 n0 n1 n2 have
          "calls R = log @ E0 @ E1 @ n2" "outcome R = Exit (fst r2)"
          by (simp_all add: unf R_def e1)
        moreover from t2 have "trace_ok w log (E0 @ E1 @ n2) (fst r2)" by (simp add: e1)
        ultimately show ?thesis using True p2
          by (intro exI [of _ "E0 @ E1 @ n2"] exI [of _ "fst r2"]) simp
      next
        case False
        with n2 have e2: "n2 = E2" by simp
        from False t2 have "trace_ok w log (E0 @ E1 @ E2) 0" by (simp add: e1 e2)
        moreover have "calls R = log @ E0 @ E1 @ E2"
          using False s0 s1 n0 n1 n2 unf by (simp add: Let_def R_def e1 e2)
        ultimately show ?thesis by (intro exI [of _ "E0 @ E1 @ E2"] exI [of _ 0]) simp
      qed
    qed
  qed
  then show ?thesis unfolding R_def E .
qed

lemma main_exact:
  assumes ol: "one_line env" and tl: "text_lines w env"
    and resp: "''backblaze_auth_response'' \<notin> fst ` set env"
    and auth: "reaches_fetches w env"
  shows "\<exists>new st. calls (main w env args) = run_base env @ new \<and>
           prefix new (expected_fetches w (run_vars w env) env) \<and>
           trace_ok w (run_base env) new st \<and>
           (st = 0 \<longrightarrow> new = expected_fetches w (run_vars w env) env) \<and>
           (st \<noteq> 0 \<longrightarrow> outcome (main w env args) = Exit st)"
proof -
  define exported where "exported =
            assign ''BACKBLAZE_DOWNLOAD_URL'' []
              (assign ''BACKBLAZE_AUTH_HEADER'' []
                 (assign ''BACKBLAZE_APPLICATION_KEY'' (backblaze_application_key env)
                    (assign ''BACKBLAZE_KEY_ID'' (backblaze_key_id env)
                       (assign ''BACKBLAZE_AUTH_URL'' (backblaze_auth_url env)
                          (assign ''CONFIG_DIR'' (config_dir env) env)))))"
  define sv where "sv = \<lparr>CONFIG_DIR = config_dir env, AUTH_HEADER = getenv env ''AUTH_HEADER'',
                BACKBLAZE_AUTH_HEADER = [], BACKBLAZE_DOWNLOAD_URL = []\<rparr>"
  have n: "\<not> is_fetch_variable ''CONFIG_DIR''" "\<not> is_fetch_variable ''BACKBLAZE_AUTH_URL''"
    "\<not> is_fetch_variable ''BACKBLAZE_KEY_ID''" "\<not> is_fetch_variable ''BACKBLAZE_APPLICATION_KEY''"
    "\<not> is_fetch_variable ''BACKBLAZE_AUTH_HEADER''" "\<not> is_fetch_variable ''BACKBLAZE_DOWNLOAD_URL''"
    "\<not> is_fetch_variable ''backblaze_auth_token''" "\<not> is_fetch_variable ''backblaze_auth_response''"
    by (simp_all add: is_fetch_variable_def)
  have v: "NL \<notin> set (config_dir env)" "NL \<notin> set (backblaze_auth_url env)"
    "NL \<notin> set (backblaze_key_id env)" "NL \<notin> set (backblaze_application_key env)"
    using getenv_one_line [OF ol]
    by (simp_all add: config_dir_def backblaze_auth_url_def backblaze_key_id_def
        backblaze_application_key_def or_default_def)
  have ole: "one_line exported"
    unfolding exported_def using ol v by (intro one_line_assign) simp_all
  have tle: "text_lines w exported"
    unfolding exported_def using tl n by (intro text_lines_assign) simp_all
  have ee: "expected_fetches w s exported = expected_fetches w s env" for s
    unfolding exported_def by (simp add: expected_fetches_assign n)
  have names: "fst ` set exported = fst ` set env"
    unfolding exported_def by (simp add: names_assign)
  show ?thesis
  proof (cases "backblaze_key_id env = [] \<and> backblaze_application_key env = []")
    case True
    then have m: "main w env args = fetch_and_exec w exported sv [] args"
      by (simp add: main_def Let_def exported_def sv_def)
    from True have b: "run_base env = []" "run_vars w env = sv"
      by (simp_all add: run_base_def run_vars_def sv_def)
    have "NL \<notin> set (CONFIG_DIR sv)" using v by (simp add: sv_def)
    from fetch_and_exec_exact [OF ole tle this, of "[]" args]
    show ?thesis unfolding m b ee .
  next
    case False
    with auth have k: "backblaze_key_id env \<noteq> []" "backblaze_application_key env \<noteq> []"
      and a: "fst (auth_result w env) = 0"
      and t: "extract_json_field (cmd_subst (snd (auth_result w env))) ''authorizationToken'' \<noteq> []"
      by (auto simp: reaches_fetches_def)
    define out where "out = snd (auth_result w env)"
    define tok where "tok = extract_json_field (cmd_subst out) ''authorizationToken''"
    define dl where "dl = extract_json_field (cmd_subst out) ''downloadUrl''"
    define base where "base = [CurlAuth (backblaze_key_id env @ '':'' @ backblaze_application_key env)
      (backblaze_auth_url env)]"
    define sv1 where "sv1 = sv\<lparr>BACKBLAZE_AUTH_HEADER := ''Authorization: '' @ tok,
              BACKBLAZE_DOWNLOAD_URL := dl\<rparr>"
    define exported1 where "exported1 =
       assign ''BACKBLAZE_AUTH_HEADER'' (''Authorization: '' @ tok)
             (assign ''BACKBLAZE_DOWNLOAD_URL'' dl
                (assign ''backblaze_auth_token'' tok
                   (assign ''backblaze_auth_response'' (cmd_subst out) exported)))"
    have ar: "auth_curl w (backblaze_key_id env @ '':'' @ backblaze_application_key env)
      (backblaze_auth_url env) = (0, out)"
      using a by (simp add: auth_result_def out_def prod_eq_iff)
    from k ar t have m: "main w env args = fetch_and_exec w exported1 sv1 base args"
      by (simp add: main_def Let_def exported_def sv_def tok_def dl_def base_def sv1_def
          exported1_def out_def)
    from k have b: "run_base env = base" "run_vars w env = sv1"
      by (simp_all add: run_base_def run_vars_def sv_def sv1_def base_def tok_def dl_def out_def)
    have ra: "assign ''backblaze_auth_response'' (cmd_subst out) exported = exported"
      using resp names by (intro assign_absent) simp
    have nt: "NL \<notin> set tok" "NL \<notin> set dl"
      by (simp_all add: tok_def dl_def extract_json_field_one_line)
    have ol1: "one_line exported1"
      unfolding exported1_def ra using ole nt by (intro one_line_assign) simp_all
    have tl1: "text_lines w exported1"
      unfolding exported1_def ra using tle n by (intro text_lines_assign) simp_all
    have e1: "expected_fetches w s exported1 = expected_fetches w s env" for s
      unfolding exported1_def ra by (simp add: expected_fetches_assign n ee)
    have "NL \<notin> set (CONFIG_DIR sv1)" using v by (simp add: sv1_def sv_def)
    from fetch_and_exec_exact [OF ol1 tl1 this, of base args]
    show ?thesis unfolding m b e1 .
  qed
qed

subsection \<open>The commands of a run\<close>

lemma fetch_lines_commands:
  "c \<in> set (snd (fetch_lines w sv pfx sfx log ls)) \<Longrightarrow>
     c \<in> set log \<or> (\<exists>u d. c = fetch_command sv u d)"
proof (induction ls arbitrary: log)
  case Nil
  then show ?case by simp
next
  case (Cons line rest)
  obtain name url where r: "read_name_url line = (name, url)" by (cases "read_name_url line")
  define k where "k = fetch_command sv url (CONFIG_DIR sv @ ''/'' @ derived_filename w pfx sfx name)"
  show ?case
  proof (cases "url = []")
    case True
    with r Cons.prems have "c \<in> set (snd (fetch_lines w sv pfx sfx log rest))" by simp
    then show ?thesis by (rule Cons.IH)
  next
    case False
    show ?thesis
    proof (cases "fetch_curl w log k = 0")
      case True
      with False r Cons.prems have "c \<in> set (snd (fetch_lines w sv pfx sfx (log @ [k]) rest))"
        by (simp add: fetch_file_def Let_def k_def)
      then have "c \<in> set (log @ [k]) \<or> (\<exists>u d. c = fetch_command sv u d)" by (rule Cons.IH)
      then show ?thesis by (auto simp: k_def)
    next
      case f: False
      with False r Cons.prems have "c \<in> set (log @ [k])"
        by (simp add: fetch_file_def Let_def k_def)
      then show ?thesis by (auto simp: k_def)
    qed
  qed
qed

lemma fetch_and_exec_commands:
  assumes "c \<in> set (calls (fetch_and_exec w exported sv log args))"
  shows "c \<in> set log \<or> (\<exists>u d. c = fetch_command sv u d)"
proof -
  define url where "url = getenv exported ''LITELLM_CONFIG_URL''"
  define k where "k = fetch_command sv url (CONFIG_DIR sv @ ''/config.yaml'')"
  define log0 where "log0 = (if url \<noteq> [] then log @ [k] else log)"
  define exported0 where "exported0 =
     (if url \<noteq> [] then assign ''dest'' (CONFIG_DIR sv @ ''/config.yaml'') (assign ''url'' url exported)
      else exported)"
  define r1 where "r1 = fetch_env_files w sv ''CONFIG_URL_'' ''.yaml'' exported0 log0"
  define r2 where "r2 = fetch_env_files w sv ''HANDLER_URL_'' ''_handler.py'' exported0 (snd r1)"
  have l0: "x \<in> set log \<or> (\<exists>u d. x = fetch_command sv u d)" if "x \<in> set log0" for x
    using that by (auto simp: log0_def k_def split: if_splits)
  have l1: "x \<in> set log \<or> (\<exists>u d. x = fetch_command sv u d)" if "x \<in> set (snd r1)" for x
    using fetch_lines_commands [of x w sv "''CONFIG_URL_''" "''.yaml''" log0] that l0
    unfolding r1_def fetch_env_files_def by blast
  have l2: "x \<in> set log \<or> (\<exists>u d. x = fetch_command sv u d)" if "x \<in> set (snd r2)" for x
    using fetch_lines_commands [of x w sv "''HANDLER_URL_''" "''_handler.py''" "snd r1"] that l1
    unfolding r2_def fetch_env_files_def by blast
  have "calls (fetch_and_exec w exported sv log args) \<in> {log0, snd r1, snd r2}"
    unfolding fetch_and_exec_def Let_def case_prod_beta fetch_file_def
      url_def [symmetric] k_def [symmetric] exported0_def [symmetric]
    by (cases "url = []") (simp_all add: log0_def r1_def r2_def)
  then consider "calls (fetch_and_exec w exported sv log args) = log0"
    | "calls (fetch_and_exec w exported sv log args) = snd r1"
    | "calls (fetch_and_exec w exported sv log args) = snd r2"
    by auto
  then show ?thesis
  proof cases
    case 1
    with assms show ?thesis by (intro l0) simp
  next
    case 2
    with assms show ?thesis by (intro l1) simp
  next
    case 3
    with assms show ?thesis by (intro l2) simp
  qed
qed

lemma main_commands:
  assumes "CurlGet h u d \<in> set (calls (main w env args))"
  shows "\<exists>sv. CONFIG_DIR sv = config_dir env \<and> AUTH_HEADER sv = getenv env ''AUTH_HEADER'' \<and>
           CurlGet h u d = fetch_command sv u d"
proof -
  have *: "\<exists>sv'. CONFIG_DIR sv' = config_dir env \<and> AUTH_HEADER sv' = getenv env ''AUTH_HEADER'' \<and>
           CurlGet h u d = fetch_command sv' u d"
    if "CurlGet h u d \<in> set (calls (fetch_and_exec w exported sv log args))"
      "CurlGet h u d \<notin> set log" "CONFIG_DIR sv = config_dir env"
      "AUTH_HEADER sv = getenv env ''AUTH_HEADER''" for exported sv log
  proof -
    from fetch_and_exec_commands [OF that(1)] that(2) obtain u' d' where
      "CurlGet h u d = fetch_command sv u' d'" by blast
    moreover from this have "u' = u" "d' = d"
      by (auto simp: fetch_command_def split: if_splits)
    ultimately show ?thesis using that(3,4) by blast
  qed
  obtain st out where a: "auth_curl w (backblaze_key_id env @ '':'' @ backblaze_application_key env)
      (backblaze_auth_url env) = (st, out)"
    by (cases "auth_curl w (backblaze_key_id env @ '':'' @ backblaze_application_key env)
      (backblaze_auth_url env)")
  define exported where "exported =
            assign ''BACKBLAZE_DOWNLOAD_URL'' []
              (assign ''BACKBLAZE_AUTH_HEADER'' []
                 (assign ''BACKBLAZE_APPLICATION_KEY'' (backblaze_application_key env)
                    (assign ''BACKBLAZE_KEY_ID'' (backblaze_key_id env)
                       (assign ''BACKBLAZE_AUTH_URL'' (backblaze_auth_url env)
                          (assign ''CONFIG_DIR'' (config_dir env) env)))))"
  define sv where "sv = \<lparr>CONFIG_DIR = config_dir env, AUTH_HEADER = getenv env ''AUTH_HEADER'',
                BACKBLAZE_AUTH_HEADER = [], BACKBLAZE_DOWNLOAD_URL = []\<rparr>"
  define tok where "tok = extract_json_field (cmd_subst out) ''authorizationToken''"
  define auth where "auth = CurlAuth (backblaze_key_id env @ '':'' @ backblaze_application_key env)
      (backblaze_auth_url env)"
  show ?thesis
  proof (cases "backblaze_key_id env \<noteq> [] \<or> backblaze_application_key env \<noteq> []")
    case False
    then have "main w env args = fetch_and_exec w exported sv [] args"
      by (simp add: main_def Let_def exported_def sv_def)
    with assms have "CurlGet h u d \<in> set (calls (fetch_and_exec w exported sv [] args))"
      by simp
    then show ?thesis by (rule *) (simp_all add: sv_def)
  next
    case some: True
    show ?thesis
    proof (cases "backblaze_key_id env = [] \<or> backblaze_application_key env = [] \<or> st \<noteq> 0 \<or>
        tok = []")
      case True
      with some a have "calls (main w env args) = [] \<or> calls (main w env args) = [auth]"
        by (auto simp: main_def Let_def tok_def auth_def)
      with assms show ?thesis by (auto simp: auth_def)
    next
      case False
      with some a have "main w env args =
        fetch_and_exec w
          (assign ''BACKBLAZE_AUTH_HEADER'' (''Authorization: '' @ tok)
             (assign ''BACKBLAZE_DOWNLOAD_URL'' (extract_json_field (cmd_subst out) ''downloadUrl'')
                (assign ''backblaze_auth_token'' tok
                   (assign ''backblaze_auth_response'' (cmd_subst out) exported))))
          (sv\<lparr>BACKBLAZE_AUTH_HEADER := ''Authorization: '' @ tok,
              BACKBLAZE_DOWNLOAD_URL := extract_json_field (cmd_subst out) ''downloadUrl''\<rparr>)
          [auth] args"
        by (simp add: main_def Let_def exported_def sv_def tok_def auth_def)
      with assms have "CurlGet h u d \<in> set (calls (fetch_and_exec w
          (assign ''BACKBLAZE_AUTH_HEADER'' (''Authorization: '' @ tok)
             (assign ''BACKBLAZE_DOWNLOAD_URL'' (extract_json_field (cmd_subst out) ''downloadUrl'')
                (assign ''backblaze_auth_token'' tok
                   (assign ''backblaze_auth_response'' (cmd_subst out) exported))))
          (sv\<lparr>BACKBLAZE_AUTH_HEADER := ''Authorization: '' @ tok,
              BACKBLAZE_DOWNLOAD_URL := extract_json_field (cmd_subst out) ''downloadUrl''\<rparr>)
          [auth] args))"
        by simp
      then show ?thesis by (rule *) (simp_all add: sv_def auth_def)
    qed
  qed
qed

subsection \<open>Further facts about file names\<close>

lemma of_char_to_lower_name:
  "is_name_char c \<Longrightarrow> is_name_char (to_lower c)"
  by (auto simp: is_name_char_def of_char_to_lower Let_def)

lemma name_char_not_slash: "is_name_char c \<Longrightarrow> c \<noteq> CHR ''/''"
  by (auto simp: is_name_char_def Let_def)

lemma derived_filename_safe:
  assumes "\<forall>c\<in>set pfx. is_name_char c" "\<forall>c\<in>set k. is_name_char c" "prefix pfx k"
    and "CHR ''/'' \<notin> set sfx" "2 < length sfx"
  shows "CHR ''/'' \<notin> set (derived_filename w pfx sfx k) \<and>
         derived_filename w pfx sfx k \<noteq> ''.'' \<and> derived_filename w pfx sfx k \<noteq> ''..''"
proof -
  from assms(3) obtain X where X: "k = pfx @ X" by (auto simp: prefix_def)
  have nl: "\<not> is_name_char NL" "\<not> is_name_char BACKSLASH"
    by (simp_all add: is_name_char_def)
  from nl assms(1) have "NL \<notin> set pfx" "BACKSLASH \<notin> set pfx" by auto
  moreover from nl assms(2) X have "NL \<notin> set X" "BACKSLASH \<notin> set X" by auto
  ultimately have d: "derived_filename w pfx sfx k = map to_lower X @ sfx"
    unfolding X by (intro derived_filename_eq)
  have "\<forall>c\<in>set X. to_lower c \<noteq> CHR ''/''"
    using assms(2) X of_char_to_lower_name name_char_not_slash by auto
  then have "CHR ''/'' \<notin> set (map to_lower X)" by auto
  with assms(4) have "CHR ''/'' \<notin> set (derived_filename w pfx sfx k)" by (simp add: d)
  moreover have "2 < length (derived_filename w pfx sfx k)" using assms(5) by (simp add: d)
  then have "derived_filename w pfx sfx k \<noteq> ''.''" "derived_filename w pfx sfx k \<noteq> ''..''"
    by auto
  ultimately show ?thesis by simp
qed


lemma loop_fetches_filename:
  assumes c: "c \<in> set (loop_fetches w sv pfx sfx env)"
    and ol: "one_line env" and p: "NL \<notin> set pfx" "BACKSLASH \<notin> set pfx"
    and b: "\<forall>(k, x)\<in>set env. BACKSLASH \<notin> set k"
  shows "\<exists>X x. (pfx @ X, x) \<in> set env \<and> read_rest x \<noteq> [] \<and>
           c = fetch_command sv (read_rest x) (CONFIG_DIR sv @ ''/'' @ map to_lower X @ sfx)"
proof -
  from c obtain k x where kx: "(k, x) \<in> set env" "prefix pfx k" "read_rest x \<noteq> []"
    "c = fetch_command sv (read_rest x) (CONFIG_DIR sv @ ''/'' @ derived_filename w pfx sfx k)"
    by (auto simp: loop_fetches_def)
  from kx(2) obtain X where X: "k = pfx @ X" by (auto simp: prefix_def)
  from kx(1) ol b X have "NL \<notin> set X" "BACKSLASH \<notin> set X"
    by (auto simp: one_line_def)
  with p have "derived_filename w pfx sfx (pfx @ X) = map to_lower X @ sfx"
    by (intro derived_filename_eq)
  with kx X show ?thesis by auto
qed

lemma fetch_command_dest: "\<exists>h. fetch_command sv url dest = CurlGet h url dest"
  by (simp add: fetch_command_def)

lemma single_line_environment_stays_inside:
  assumes wf: "\<forall>(k, x)\<in>set exported. NL \<notin> set x \<and> (\<forall>c\<in>set k. is_name_char c)"
    and pfx: "\<forall>c\<in>set pfx. is_name_char c" and sfx: "CHR ''/'' \<notin> set sfx" "2 < length sfx"
    and c: "CurlGet h u d \<in> set (snd (fetch_env_files w sv pfx sfx exported log))"
  shows "CurlGet h u d \<in> set log \<or>
         (\<exists>f. d = CONFIG_DIR sv @ ''/'' @ f \<and> CHR ''/'' \<notin> set f \<and> f \<noteq> ''.'' \<and> f \<noteq> ''..'')"
proof -
  have n: "\<not> is_name_char NL" "\<not> is_name_char CHR ''=''"
    by (simp_all add: is_name_char_def)
  from n pfx have eq: "CHR ''='' \<notin> set pfx" by auto
  from n wf have wf': "\<forall>(k, x)\<in>set exported. CHR ''='' \<notin> set k \<and> NL \<notin> set k \<and> NL \<notin> set x"
    by fastforce
  from fetch_env_files_calls [OF eq wf', of w sv sfx log] obtain new where
    new: "snd (fetch_env_files w sv pfx sfx exported log) = log @ new"
      "prefix new
         (map (\<lambda>(k, x). fetch_command sv (read_rest x)
                            (CONFIG_DIR sv @ ''/'' @ derived_filename w pfx sfx k))
            (filter (\<lambda>(k, x). prefix pfx k \<and> grep_text w (k @ CHR ''='' # x) \<and>
                               read_rest x \<noteq> []) exported))"
    by (elim exE conjE)
  show ?thesis
  proof (cases "CurlGet h u d \<in> set log")
    case True
    then show ?thesis by simp
  next
    case False
    with c new(1) have "CurlGet h u d \<in> set new" by simp
    with new(2) have "CurlGet h u d \<in>
       set (map (\<lambda>(k, x). fetch_command sv (read_rest x)
                            (CONFIG_DIR sv @ ''/'' @ derived_filename w pfx sfx k))
            (filter (\<lambda>(k, x). prefix pfx k \<and> grep_text w (k @ CHR ''='' # x) \<and>
                               read_rest x \<noteq> []) exported))"
      using set_mono_prefix by blast
    then obtain k x where kx: "(k, x) \<in> set exported" "prefix pfx k"
      "CurlGet h u d = fetch_command sv (read_rest x)
                            (CONFIG_DIR sv @ ''/'' @ derived_filename w pfx sfx k)"
      by auto
    from kx(3) fetch_command_dest [of sv "read_rest x" "CONFIG_DIR sv @ ''/'' @ derived_filename w pfx sfx k"]
    have d: "d = CONFIG_DIR sv @ ''/'' @ derived_filename w pfx sfx k" by auto
    from kx(1) wf have "\<forall>c\<in>set k. is_name_char c" by auto
    from derived_filename_safe [OF pfx this kx(2) sfx] d show ?thesis by blast
  qed
qed

section \<open>The claims\<close>

subsection \<open>Header precedence\<close>

text \<open>
  C1. Every fetch makes exactly one \<^verbatim>\<open>curl\<close> call for its URL and destination, and the
  header of that call follows a strict precedence. When \<open>AUTH_HEADER\<close> is non-empty the
  call carries its value verbatim, whatever the URL and whatever the Backblaze state.
  Otherwise, when a Backblaze header is registered and \<open>is_backblaze_url\<close> holds for the
  URL, the call carries the Backblaze header. Otherwise the call carries no header.
  In a run of the whole script every download is such a call, made with the
  \<open>AUTH_HEADER\<close> of the environment; so in a run with a non-empty \<open>AUTH_HEADER\<close> every
  download carries it, also after a successful Backblaze authorization.
\<close>

theorem fetch_file_header_precedence:
  "(AUTH_HEADER sv \<noteq> [] \<longrightarrow>
      snd (fetch_file w sv log url dest) = log @ [CurlGet (Some (AUTH_HEADER sv)) url dest]) \<and>
   (AUTH_HEADER sv = [] \<and> BACKBLAZE_AUTH_HEADER sv \<noteq> [] \<and> is_backblaze_url sv url \<longrightarrow>
      snd (fetch_file w sv log url dest) =
        log @ [CurlGet (Some (BACKBLAZE_AUTH_HEADER sv)) url dest]) \<and>
   (AUTH_HEADER sv = [] \<and> \<not> (BACKBLAZE_AUTH_HEADER sv \<noteq> [] \<and> is_backblaze_url sv url) \<longrightarrow>
      snd (fetch_file w sv log url dest) = log @ [CurlGet None url dest]) \<and>
   (CurlGet h u d \<in> set (calls (main w env args)) \<longrightarrow>
      (\<exists>sv'. AUTH_HEADER sv' = getenv env ''AUTH_HEADER'' \<and>
             snd (fetch_file w sv' log u d) = log @ [CurlGet h u d]) \<and>
      (getenv env ''AUTH_HEADER'' \<noteq> [] \<longrightarrow> h = Some (getenv env ''AUTH_HEADER'')))"
proof -
  have "(\<exists>sv'. AUTH_HEADER sv' = getenv env ''AUTH_HEADER'' \<and>
             snd (fetch_file w sv' log u d) = log @ [CurlGet h u d]) \<and>
      (getenv env ''AUTH_HEADER'' \<noteq> [] \<longrightarrow> h = Some (getenv env ''AUTH_HEADER''))"
    if "CurlGet h u d \<in> set (calls (main w env args))"
  proof -
    from main_commands [OF that] obtain sv' where
      sv': "AUTH_HEADER sv' = getenv env ''AUTH_HEADER''" "CurlGet h u d = fetch_command sv' u d"
      by blast
    from sv'(2) have "snd (fetch_file w sv' log u d) = log @ [CurlGet h u d]"
      by (simp add: fetch_file_def Let_def)
    moreover from sv' have "h = Some (getenv env ''AUTH_HEADER'')"
      if "getenv env ''AUTH_HEADER'' \<noteq> []"
      using that by (simp add: fetch_command_def)
    ultimately show ?thesis using sv'(1) by blast
  qed
  then show ?thesis
    by (simp add: fetch_file_def fetch_command_def Let_def)
qed

text \<open>
  Three fetches: a Backblaze URL with \<open>AUTH_HEADER\<close> set (the explicit header wins), the
  same URL without \<open>AUTH_HEADER\<close> (the Backblaze header), and an unrelated URL without
  \<open>AUTH_HEADER\<close> (no header). Then a run with both Backblaze keys and \<open>AUTH_HEADER\<close> set:
  after the authorization its one download, of a Backblaze URL, carries \<open>AUTH_HEADER\<close>.
\<close>

theorem fetch_file_header_precedence_witness:
  "AUTH_HEADER overridden_vars \<noteq> [] \<and>
   is_backblaze_url overridden_vars ''https://f001.example.com/file/b/config.yaml'' \<and>
   snd (fetch_file calm_world overridden_vars []
          ''https://f001.example.com/file/b/config.yaml'' ''/app/config/config.yaml'') =
     [CurlGet (Some ''Authorization: Bearer t1'')
        ''https://f001.example.com/file/b/config.yaml'' ''/app/config/config.yaml''] \<and>
   AUTH_HEADER authorized_vars = [] \<and> BACKBLAZE_AUTH_HEADER authorized_vars \<noteq> [] \<and>
   is_backblaze_url authorized_vars ''https://f001.example.com/file/b/config.yaml'' \<and>
   snd (fetch_file calm_world authorized_vars []
          ''https://f001.example.com/file/b/config.yaml'' ''/app/config/config.yaml'') =
     [CurlGet (Some ''Authorization: T1'')
        ''https://f001.example.com/file/b/config.yaml'' ''/app/config/config.yaml''] \<and>
   \<not> is_backblaze_url authorized_vars ''https://x/y/config.yaml'' \<and>
   snd (fetch_file calm_world authorized_vars []
          ''https://x/y/config.yaml'' ''/app/config/config.yaml'') =
     [CurlGet None ''https://x/y/config.yaml'' ''/app/config/config.yaml''] \<and>
   calls (main calm_world
            [(''B2_KEY_ID'', ''k1''), (''B2_APPLICATION_KEY'', ''s1''),
             (''AUTH_HEADER'', ''Authorization: Bearer t1''),
             (''LITELLM_CONFIG_URL'', ''https://f001.example.com/file/b/config.yaml'')] []) =
     [CurlAuth ''k1:s1'' ''https://api.backblazeb2.com/b2api/v2/b2_authorize_account'',
      CurlGet (Some ''Authorization: Bearer t1'')
        ''https://f001.example.com/file/b/config.yaml'' ''/app/config/config.yaml''] \<and>
   Some ''Authorization: Bearer t1'' =
     Some (getenv [(''B2_KEY_ID'', ''k1''), (''B2_APPLICATION_KEY'', ''s1''),
                   (''AUTH_HEADER'', ''Authorization: Bearer t1''),
                   (''LITELLM_CONFIG_URL'', ''https://f001.example.com/file/b/config.yaml'')]
             ''AUTH_HEADER'')"
proof -
  let ?env = "[(''B2_KEY_ID'', ''k1''), (''B2_APPLICATION_KEY'', ''s1''),
               (''AUTH_HEADER'', ''Authorization: Bearer t1''),
               (''LITELLM_CONFIG_URL'', ''https://f001.example.com/file/b/config.yaml'')]"
  have run: "calls (main calm_world ?env []) =
     [CurlAuth ''k1:s1'' ''https://api.backblazeb2.com/b2api/v2/b2_authorize_account'',
      CurlGet (Some ''Authorization: Bearer t1'')
        ''https://f001.example.com/file/b/config.yaml'' ''/app/config/config.yaml'']"
    by code_simp
  have ne: "getenv ?env ''AUTH_HEADER'' \<noteq> []"
    by (simp add: getenv_def)
  from run ne
    fetch_file_header_precedence [where w = calm_world and env = ?env and args = "[]"
      and h = "Some ''Authorization: Bearer t1''"
      and u = "''https://f001.example.com/file/b/config.yaml''"
      and d = "''/app/config/config.yaml''"]
  have r: "Some ''Authorization: Bearer t1'' = Some (getenv ?env ''AUTH_HEADER'')"
    by simp
  from r run
    fetch_file_header_precedence [where sv = overridden_vars and w = calm_world and log = "[]"
      and url = "''https://f001.example.com/file/b/config.yaml''"
      and dest = "''/app/config/config.yaml''"]
    fetch_file_header_precedence [where sv = authorized_vars and w = calm_world and log = "[]"
      and url = "''https://f001.example.com/file/b/config.yaml''"
      and dest = "''/app/config/config.yaml''"]
    fetch_file_header_precedence [where sv = authorized_vars and w = calm_world and log = "[]"
      and url = "''https://x/y/config.yaml''" and dest = "''/app/config/config.yaml''"]
  show ?thesis
    by (simp add: overridden_vars_def authorized_vars_def is_backblaze_url_def remove_prefix_def)
qed

subsection \<open>Fail fast\<close>




subsection \<open>Credentials\<close>

text \<open>
  C3. If, after the aliases \<^verbatim>\<open>BACKBLAZE_*\<close> and \<^verbatim>\<open>B2_*\<close> are resolved, exactly one of key
  id and application key is non-empty, the script exits with status 1 without having made
  any \<^verbatim>\<open>curl\<close> call, and its one message on standard error says that both must be set.
\<close>

theorem half_credentials_are_fatal:
  assumes "(backblaze_key_id env = []) \<noteq> (backblaze_application_key env = [])"
  shows "main w env args = \<lparr>outcome = Exit 1, calls = [], stderr = [keys_message]\<rparr>"
  using assms by (auto simp: main_def Let_def)

text \<open>Only \<^verbatim>\<open>B2_KEY_ID\<close> is set, next to a config URL that is never fetched.\<close>

theorem half_credentials_are_fatal_witness:
  "(backblaze_key_id [(''B2_KEY_ID'', ''k1''), (''LITELLM_CONFIG_URL'', ''https://x/y/config.yaml'')] = []) \<noteq>
   (backblaze_application_key
      [(''B2_KEY_ID'', ''k1''), (''LITELLM_CONFIG_URL'', ''https://x/y/config.yaml'')] = []) \<and>
   main calm_world [(''B2_KEY_ID'', ''k1''), (''LITELLM_CONFIG_URL'', ''https://x/y/config.yaml'')] [] =
     \<lparr>outcome = Exit 1, calls = [], stderr = [keys_message]\<rparr>"
proof -
  have h: "(backblaze_key_id [(''B2_KEY_ID'', ''k1''), (''LITELLM_CONFIG_URL'', ''https://x/y/config.yaml'')] = []) \<noteq>
   (backblaze_application_key
      [(''B2_KEY_ID'', ''k1''), (''LITELLM_CONFIG_URL'', ''https://x/y/config.yaml'')] = [])"
    by (simp add: backblaze_key_id_def backblaze_application_key_def or_default_def getenv_def)
  from h half_credentials_are_fatal [OF h, of calm_world "[]"] show ?thesis by simp
qed



subsection \<open>The environment of the downstream process\<close>

text \<open>
  C9. Whenever the script reaches \<^verbatim>\<open>exec\<close>, the value of \<^verbatim>\<open>PYTHONPATH\<close> that it has
  exported is \<^verbatim>\<open>CONFIG_DIR\<close> (the configured directory, or \<^verbatim>\<open>/app/config\<close>), then a
  colon, then the previous value of \<^verbatim>\<open>PYTHONPATH\<close> unchanged (empty when it was unset); the
  arguments are passed on unchanged.
\<close>

theorem pythonpath_prepended:
  assumes "outcome (main w env args) = Exec pp a"
  shows "pp = config_dir env @ '':'' @ getenv env ''PYTHONPATH'' \<and> a = args"
  using assms
  by (auto simp: main_def Let_def getenv_assign_other
      split: prod.splits if_splits dest!: fetch_and_exec_Exec)

theorem pythonpath_prepended_witness:
  "outcome (main calm_world
              [(''CONFIG_DIR'', ''/srv/cfg''), (''PYTHONPATH'', ''/usr/lib/extra:/opt/lib''),
               (''HANDLER_URL_CUSTOM'', ''https://x/custom.py'')]
              [''--config'', ''/srv/cfg/config.yaml'']) =
     Exec ''/srv/cfg:/usr/lib/extra:/opt/lib'' [''--config'', ''/srv/cfg/config.yaml''] \<and>
   ''/srv/cfg:/usr/lib/extra:/opt/lib'' =
     config_dir [(''CONFIG_DIR'', ''/srv/cfg''), (''PYTHONPATH'', ''/usr/lib/extra:/opt/lib''),
                 (''HANDLER_URL_CUSTOM'', ''https://x/custom.py'')] @ '':'' @
     getenv [(''CONFIG_DIR'', ''/srv/cfg''), (''PYTHONPATH'', ''/usr/lib/extra:/opt/lib''),
             (''HANDLER_URL_CUSTOM'', ''https://x/custom.py'')] ''PYTHONPATH''"
proof -
  have run: "outcome (main calm_world
              [(''CONFIG_DIR'', ''/srv/cfg''), (''PYTHONPATH'', ''/usr/lib/extra:/opt/lib''),
               (''HANDLER_URL_CUSTOM'', ''https://x/custom.py'')]
              [''--config'', ''/srv/cfg/config.yaml'']) =
     Exec ''/srv/cfg:/usr/lib/extra:/opt/lib'' [''--config'', ''/srv/cfg/config.yaml'']"
    by code_simp
  from pythonpath_prepended [OF run] run show ?thesis by simp
qed

subsection \<open>Variables with an empty value\<close>

text \<open>
  C10. Variables that match a fetch pattern (\<^verbatim>\<open>LITELLM_CONFIG_URL\<close>, \<^verbatim>\<open>CONFIG_URL_*\<close>,
  \<^verbatim>\<open>HANDLER_URL_*\<close>) and have an empty value have no effect at all: the run is the same,
  call for call and in its outcome, as the run in the environment without them. So they
  cause no fetch and no write, and the rest of the bootstrap proceeds as it would have.
  (Names in an environment are distinct and contain no \<^verbatim>\<open>=\<close>.)
\<close>

theorem empty_fetch_variables_ignored:
  assumes "distinct (map fst env)" and "\<forall>(k, x)\<in>set env. CHR ''='' \<notin> set k"
  shows "main w (filter (\<lambda>(k, x). \<not> (is_fetch_variable k \<and> x = [])) env) args = main w env args"
proof (rule main_filter)
  show "removable (\<lambda>(k, x). \<not> (is_fetch_variable k \<and> x = [])) env"
    using assms by (auto simp: removable_def)
next
  fix n x
  assume "\<not> is_fetch_variable n"
  then show "case (n, x) of (k, x) \<Rightarrow> \<not> (is_fetch_variable k \<and> x = [])" by simp
qed

text \<open>
  Three empty variables, one of each pattern, next to a config that is fetched: the run
  makes the one call for \<^verbatim>\<open>CONFIG_URL_TEAMS\<close> and then transfers control.
\<close>

theorem empty_fetch_variables_ignored_witness:
  "distinct (map fst [(''LITELLM_CONFIG_URL'', []), (''CONFIG_URL_MODELS'', []),
                      (''CONFIG_URL_TEAMS'', ''https://x/y/teams.yaml''),
                      (''HANDLER_URL_CUSTOM'', [])]) \<and>
   list_all (\<lambda>(k, x). CHR ''='' \<notin> set k)
     [(''LITELLM_CONFIG_URL'', []), (''CONFIG_URL_MODELS'', []),
      (''CONFIG_URL_TEAMS'', ''https://x/y/teams.yaml''), (''HANDLER_URL_CUSTOM'', [])] \<and>
   main calm_world [(''LITELLM_CONFIG_URL'', []), (''CONFIG_URL_MODELS'', []),
                    (''CONFIG_URL_TEAMS'', ''https://x/y/teams.yaml''),
                    (''HANDLER_URL_CUSTOM'', [])] [] =
     main calm_world [(''CONFIG_URL_TEAMS'', ''https://x/y/teams.yaml'')] [] \<and>
   main calm_world [(''CONFIG_URL_TEAMS'', ''https://x/y/teams.yaml'')] [] =
     \<lparr>outcome = Exec ''/app/config:'' [],
      calls = [CurlGet None ''https://x/y/teams.yaml'' ''/app/config/teams.yaml''],
      stderr = []\<rparr>"
proof -
  let ?env = "[(''LITELLM_CONFIG_URL'', []), (''CONFIG_URL_MODELS'', []),
               (''CONFIG_URL_TEAMS'', ''https://x/y/teams.yaml''), (''HANDLER_URL_CUSTOM'', [])]"
  have d: "distinct (map fst ?env)" by simp
  have n: "\<forall>(k, x)\<in>set ?env. CHR ''='' \<notin> set k" by simp
  have f: "filter (\<lambda>(k, x). \<not> (is_fetch_variable k \<and> x = [])) ?env =
             [(''CONFIG_URL_TEAMS'', ''https://x/y/teams.yaml'')]"
    by (simp add: is_fetch_variable_def)
  have r: "main calm_world [(''CONFIG_URL_TEAMS'', ''https://x/y/teams.yaml'')] [] =
     \<lparr>outcome = Exec ''/app/config:'' [],
      calls = [CurlGet None ''https://x/y/teams.yaml'' ''/app/config/teams.yaml''],
      stderr = []\<rparr>"
    by code_simp
  have n': "list_all (\<lambda>(k, x). CHR ''='' \<notin> set k) ?env" by simp
  from empty_fetch_variables_ignored [OF d n, of calm_world "[]"] d n' r show ?thesis
    unfolding f by simp
qed

subsection \<open>Destination file names\<close>

text \<open>
  C5 does not hold of the script. The environment below has one variable,
  \<^verbatim>\<open>CONFIG_URL_A\<close>, and its value is not empty: an empty first line and the second line
  \<^verbatim>\<open>CONFIG_URL_B=http://b\<close>. By the claim the value is fetched to \<^verbatim>\<open>a.yaml\<close>, whatever it
  is. The script fetches \<^verbatim>\<open>http://b\<close> to \<^verbatim>\<open>/app/config/b.yaml\<close> and nothing to \<^verbatim>\<open>a.yaml\<close>:
  it reads the output of \<^verbatim>\<open>env\<close> line by line, so the file name comes from the second
  line of the value and not from the name of the variable. This is the defect of C8. For
  the variables of an environment of single lines the attempts of a loop do go to the
  lower-cased rest of the name with the suffix appended (\<open>loop_fetches_filename\<close>).
\<close>

theorem multiline_value_names_the_file:
  "main calm_world [(''CONFIG_URL_A'', [NL] @ ''CONFIG_URL_B=http://b'')] [] =
     \<lparr>outcome = Exec ''/app/config:'' [],
      calls = [CurlGet None ''http://b'' ''/app/config/b.yaml''],
      stderr = []\<rparr>"
  by code_simp

text \<open>The name of the one variable, the file name that the claim gives it, and the calls.\<close>

theorem multiline_value_names_the_file_witness:
  "map fst [(''CONFIG_URL_A'', [NL] @ ''CONFIG_URL_B=http://b'')] = [''CONFIG_URL_A''] \<and>
   [NL] @ ''CONFIG_URL_B=http://b'' \<noteq> [] \<and>
   map to_lower ''A'' @ ''.yaml'' = ''a.yaml'' \<and>
   calls (main calm_world [(''CONFIG_URL_A'', [NL] @ ''CONFIG_URL_B=http://b'')] []) =
     [CurlGet None ''http://b'' ''/app/config/b.yaml'']"
proof -
  have "map to_lower ''A'' @ ''.yaml'' = ''a.yaml''" by code_simp
  with multiline_value_names_the_file show ?thesis by simp
qed

subsection \<open>Which URLs get the Backblaze header\<close>

text \<open>
  C6 as worded fails. With the base download URL \<^verbatim>\<open>https://f001.example.com\<close>, the URL
  \<^verbatim>\<open>https://f001.example.com.evil.org/x\<close> begins with the base download URL, so the
  predicate of the specification holds; \<open>is_backblaze_url\<close> does not hold, and the fetch
  carries no header. So it is in a run of the script: the authorization succeeds, its
  response names that base download URL, and the download is made without a header.
\<close>

theorem is_backblaze_url_needs_slash:
  "spec_is_backblaze_url (BACKBLAZE_DOWNLOAD_URL authorized_vars)
     ''https://f001.example.com.evil.org/x'' \<and>
   \<not> is_backblaze_url authorized_vars ''https://f001.example.com.evil.org/x'' \<and>
   fetch_command authorized_vars ''https://f001.example.com.evil.org/x'' ''/app/config/a.yaml'' =
     CurlGet None ''https://f001.example.com.evil.org/x'' ''/app/config/a.yaml'' \<and>
   extract_json_field example_response ''downloadUrl'' = ''https://f001.example.com'' \<and>
   main calm_world
     [(''B2_KEY_ID'', ''k1''), (''B2_APPLICATION_KEY'', ''s1''),
      (''CONFIG_URL_A'', ''https://f001.example.com.evil.org/x'')] [] =
     \<lparr>outcome = Exec ''/app/config:'' [],
      calls = [CurlAuth ''k1:s1'' ''https://api.backblazeb2.com/b2api/v2/b2_authorize_account'',
               CurlGet None ''https://f001.example.com.evil.org/x'' ''/app/config/a.yaml''],
      stderr = []\<rparr>"
proof -
  have "extract_json_field example_response ''downloadUrl'' = ''https://f001.example.com''"
    by code_simp
  moreover have "main calm_world
     [(''B2_KEY_ID'', ''k1''), (''B2_APPLICATION_KEY'', ''s1''),
      (''CONFIG_URL_A'', ''https://f001.example.com.evil.org/x'')] [] =
     \<lparr>outcome = Exec ''/app/config:'' [],
      calls = [CurlAuth ''k1:s1'' ''https://api.backblazeb2.com/b2api/v2/b2_authorize_account'',
               CurlGet None ''https://f001.example.com.evil.org/x'' ''/app/config/a.yaml''],
      stderr = []\<rparr>"
    by code_simp
  ultimately show ?thesis
    by (simp add: spec_is_backblaze_url_def is_backblaze_url_def fetch_command_def
        authorized_vars_def remove_prefix_def)
qed

text \<open>
  C6, amended. \<open>is_backblaze_url\<close> holds for a URL if and only if (a) the base download
  URL is non-empty and the URL begins with the base download URL followed by \<^verbatim>\<open>/\<close>, or
  (b) the URL contains \<^verbatim>\<open>backblazeb2.com/\<close>. A URL for which it does not hold is fetched
  with \<open>AUTH_HEADER\<close> when that is set and with no header otherwise.
\<close>

theorem is_backblaze_url_iff:
  "(is_backblaze_url sv url \<longleftrightarrow>
      BACKBLAZE_DOWNLOAD_URL sv \<noteq> [] \<and> prefix (BACKBLAZE_DOWNLOAD_URL sv @ ''/'') url \<or>
      sublist ''backblazeb2.com/'' url) \<and>
   (\<not> is_backblaze_url sv url \<longrightarrow>
      snd (fetch_file w sv log url dest) =
        log @ [if AUTH_HEADER sv \<noteq> [] then CurlGet (Some (AUTH_HEADER sv)) url dest
               else CurlGet None url dest])"
proof -
  have "remove_prefix (BACKBLAZE_DOWNLOAD_URL sv @ ''/'') url \<noteq> url \<longleftrightarrow>
          prefix (BACKBLAZE_DOWNLOAD_URL sv @ ''/'') url"
    by (rule remove_prefix_changes) simp
  then show ?thesis
    by (auto simp: is_backblaze_url_def glob_contains_sublist fetch_file_def fetch_command_def
        Let_def)
qed

text \<open>
  After the authorization of the example: a file below the base download URL, a URL of the
  provider's domain, and an unrelated URL, which is fetched without a header.
\<close>

theorem is_backblaze_url_iff_witness:
  "is_backblaze_url authorized_vars ''https://f001.example.com/file/b/a.yaml'' \<and>
   is_backblaze_url authorized_vars ''https://f002.backblazeb2.com/file/b/a.yaml'' \<and>
   \<not> is_backblaze_url authorized_vars ''https://x/y/a.yaml'' \<and>
   snd (fetch_file calm_world authorized_vars [] ''https://x/y/a.yaml'' ''/app/config/a.yaml'') =
     [CurlGet None ''https://x/y/a.yaml'' ''/app/config/a.yaml'']"
proof -
  have s: "sublist ''backblazeb2.com/'' ''https://f002.backblazeb2.com/file/b/a.yaml''"
    "\<not> sublist ''backblazeb2.com/'' ''https://x/y/a.yaml''"
    by code_simp+
  from s
    is_backblaze_url_iff [where sv = authorized_vars
      and url = "''https://f001.example.com/file/b/a.yaml''"]
    is_backblaze_url_iff [where sv = authorized_vars
      and url = "''https://f002.backblazeb2.com/file/b/a.yaml''"]
    is_backblaze_url_iff [where sv = authorized_vars and w = calm_world and log = "[]"
      and url = "''https://x/y/a.yaml''" and dest = "''/app/config/a.yaml''"]
  show ?thesis by (simp add: authorized_vars_def)
qed

subsection \<open>One fetch for every matching variable\<close>




subsection \<open>Destinations inside the configured directory\<close>

text \<open>
  C8 does not hold of the script. Every name in the environment below consists of letters
  only, yet the script fetches to \<^verbatim>\<open>/app/config/../../tmp/evil.yaml\<close>, a path outside
  \<^verbatim>\<open>/app/config\<close>: the second line of the value of \<^verbatim>\<open>FOO\<close> is a line of the output of
  \<^verbatim>\<open>env\<close> that begins with \<^verbatim>\<open>CONFIG_URL_\<close>, and the loop takes it for a variable. A loop
  whose exported variables all have single-line values and names of these characters
  does keep its destinations inside the directory
  (\<open>single_line_environment_stays_inside\<close>). That is a fact about one loop, not about a
  run: the script itself gives the exported variable \<^verbatim>\<open>backblaze_auth_response\<close>, when
  there is one, the output of the authorization call, which may have several lines.
\<close>

theorem multiline_value_escapes_config_dir:
  "main calm_world [(''FOO'', ''x'' @ [NL] @ ''CONFIG_URL_../../tmp/evil=http://e'')] [] =
     \<lparr>outcome = Exec ''/app/config:'' [],
      calls = [CurlGet None ''http://e'' ''/app/config/../../tmp/evil.yaml''],
      stderr = []\<rparr>"
  by code_simp

text \<open>The calls of that run, and the names of its environment.\<close>

theorem multiline_value_escapes_config_dir_witness:
  "map fst [(''FOO'', ''x'' @ [NL] @ ''CONFIG_URL_../../tmp/evil=http://e'')] = [''FOO''] \<and>
   calls (main calm_world [(''FOO'', ''x'' @ [NL] @ ''CONFIG_URL_../../tmp/evil=http://e'')] []) =
     [CurlGet None ''http://e'' ''/app/config/../../tmp/evil.yaml'']"
  using multiline_value_escapes_config_dir by simp

end
